theory Spec2Isabelle
  imports Main
begin

section \<open>The document as the content script sees it\<close>

text \<open>
  A JavaScript string is a sequence of UTF-16 code units; the em-dash U+2014 is one code
  unit.  Every DOM node is an object with an identity (\<open>nid\<close>); a text node carries its
  text, an element its \<open>tagName\<close>, its \<open>classList\<close> and its \<open>childNodes\<close> in document
  order.  The presentation attributes that \<open>highlightTextNode\<close> gives a highlight span
  (\<open>title\<close>, the random \<open>animationDelay\<close> and \<open>backgroundPositionX\<close>) are read by no
  operation of the script and are left out of the node.
\<close>

type_synonym jsstring = "nat list"

definition EM_DASH :: nat where
  "EM_DASH = 0x2014"

definition ascii :: "string \<Rightarrow> jsstring" where
  "ascii s = map of_char s"

datatype node =
    Text (nid: nat) (textOf: jsstring)
  | Element (nid: nat) (tagName: string) (classList: "string list") (childNodes: "node list")
where
  "tagName (Text i t) = []"
| "classList (Text i t) = []"
| "childNodes (Text i t) = []"
| "textOf (Element i tag cls ch) = []"

definition highlightClass :: string where
  "highlightClass = ''mdash-highlight''"

definition bannerClass :: string where
  "bannerClass = ''mdash-warning-banner''"

definition textClass :: string where
  "textClass = ''mdash-warning-text''"

definition countClass :: string where
  "countClass = ''mdash-warning-count''"

text \<open>\<open>node.textContent\<close>: the text of a text node, the concatenation of the text of
  all text descendants of an element.\<close>

fun textContent :: "node \<Rightarrow> jsstring" and textContents :: "node list \<Rightarrow> jsstring" where
  "textContent (Text i t) = t"
| "textContent (Element i tag cls ch) = textContents ch"
| "textContents [] = []"
| "textContents (x # xs) = textContent x @ textContents xs"

text \<open>The number of elements carrying the highlight class in a subtree, the root
  included (\<open>querySelectorAll(".mdash-highlight").length\<close> plus the root's own match).\<close>

fun highlights :: "node \<Rightarrow> nat" and highlightsL :: "node list \<Rightarrow> nat" where
  "highlights (Text i t) = 0"
| "highlights (Element i tag cls ch) =
     (if highlightClass \<in> set cls then 1 else 0) + highlightsL ch"
| "highlightsL [] = 0"
| "highlightsL (x # xs) = highlights x + highlightsL xs"

section \<open>The script's variables and the host objects it touches\<close>

datatype callback = DebouncedRescan | Cleanup

text \<open>What stands in \<open>history.pushState\<close> (or \<open>history.replaceState\<close>): the host's own
  method, the bound copy taken at load time (\<open>originalHistoryPushState\<close>), or the wrapper
  that \<open>observeChanges\<close> installs.\<close>

datatype histfn = Native | BoundOriginal | Wrapper

text \<open>
  The variables of the script (\<open>svgInjected\<close> to \<open>historyPatched\<close>) and the host state
  they refer to.  A reference is the identity of the object: \<open>warningBanner\<close> holds the
  \<open>nid\<close> of the banner element, \<open>mutationObserver\<close> the handle of the observer,
  \<open>debounceTimeout\<close> the handle \<open>setTimeout\<close> returned.  \<open>document.body\<close> is the
  \<open>BODY\<close> element with the classes \<open>bodyClasses\<close> and the children \<open>bodyChildren\<close>.
  \<open>sparkleBgWrites\<close> counts the executions of
  \<open>documentElement.style.setProperty("--mdash-sparkle-bg", \<dots>)\<close>; \<open>timers\<close> are the
  pending timeouts of the host, \<open>observing\<close> the observers currently subscribed to the
  body, \<open>windowListeners\<close> the listeners registered on \<open>window\<close> (event type,
  callback, \<open>once\<close>), \<open>sessionHistory\<close> the entries of the session history.
  \<open>nextId\<close> is the allocator of object identities and handles.
\<close>

record state =
  svgInjected :: bool
  emDashCount :: nat
  warningBanner :: "nat option"
  mutationObserver :: "nat option"
  debounceTimeout :: "nat option"
  historyPatched :: bool
  sparkleBgWrites :: nat
  bodyId :: nat
  bodyClasses :: "string list"
  bodyChildren :: "node list"
  nextId :: nat
  timers :: "nat list"
  observing :: "nat list"
  windowListeners :: "(string \<times> callback \<times> bool) list"
  historyPushState :: histfn
  historyReplaceState :: histfn
  sessionHistory :: "nat list"

definition documentBody :: "state \<Rightarrow> node" where
  "documentBody s = Element (bodyId s) ''BODY'' (bodyClasses s) (bodyChildren s)"

section \<open>Scanner and highlighter\<close>

text \<open>\<open>injectSparkleSvg\<close>: guarded by \<open>svgInjected\<close>.\<close>

definition injectSparkleSvg :: "state \<Rightarrow> state" where
  "injectSparkleSvg s =
     (if svgInjected s then s
      else s\<lparr>svgInjected := True, sparkleBgWrites := Suc (sparkleBgWrites s)\<rparr>)"

text \<open>\<open>text.split(EM_DASH)\<close>: the pieces between the separators; one piece more than
  there are separators, empty pieces kept.  (\<open>split\<close> never returns the empty list; the
  last case branch is there for totality only.)\<close>

fun split :: "jsstring \<Rightarrow> jsstring list" where
  "split [] = [[]]"
| "split (c # cs) =
     (if c = EM_DASH then [] # split cs
      else (case split cs of p # ps \<Rightarrow> (c # p) # ps | [] \<Rightarrow> [[c]]))"

text \<open>
  The \<open>parts.forEach\<close> loop of \<open>highlightTextNode\<close>, filling the document fragment: a
  text node for a non-empty part, and after every part but the last a highlight span
  holding one em-dash (\<open>span.textContent = EM_DASH\<close> gives it one text child).  The
  second argument is the allocator, returned advanced.
\<close>

fun buildFragment :: "jsstring list \<Rightarrow> nat \<Rightarrow> node list \<times> nat" where
  "buildFragment [] n = ([], n)"
| "buildFragment (part # rest) n =
     (let (str, n1) = (if part \<noteq> [] then ([Text n part], Suc n) else ([], n));
          (spn, n2) = (if rest \<noteq> []
                       then ([Element n1 ''SPAN'' [highlightClass] [Text (Suc n1) [EM_DASH]]], n1 + 2)
                       else ([], n1));
          (more, n3) = buildFragment rest n2
      in (str @ spn @ more, n3))"

text \<open>
  \<open>highlightTextNode(textNode)\<close>.  The pair threaded through is (\<open>emDashCount\<close>,
  allocator).  The result lists the nodes that stand where the text node stood: the
  node itself when the text has no em-dash (early return) or when \<open>parentNode\<close> is null
  (\<open>parentNode?.replaceChild\<close> does nothing), the children of the fragment otherwise.
  As in the source, the counter is raised before the parent is looked at.
\<close>

definition highlightTextNode :: "node \<Rightarrow> bool \<Rightarrow> nat \<times> nat \<Rightarrow> node list \<times> nat \<times> nat" where
  "highlightTextNode textNode hasParent ctx =
     (let text = textOf textNode; (cnt, n) = ctx in
      if EM_DASH \<notin> set text then ([textNode], ctx)
      else
        let matches = length (split text) - 1;
            cnt' = cnt + matches;
            (fragment, n') = buildFragment (split text) n
        in (if hasParent then fragment else [textNode], cnt', n'))"

definition skipTags :: "string list" where
  "skipTags = [''SCRIPT'', ''STYLE'', ''NOSCRIPT'', ''IFRAME'', ''TEXTAREA'', ''INPUT'']"

definition isMarker :: "string list \<Rightarrow> bool" where
  "isMarker cls \<longleftrightarrow> highlightClass \<in> set cls \<or> bannerClass \<in> set cls"

text \<open>
  The tree walker of \<open>walkTextNodes\<close> (\<open>SHOW_TEXT\<close> with the \<open>acceptNode\<close> filter)
  followed by \<open>textNodes.forEach(highlightTextNode)\<close>.  The walker descends through
  every element (elements are not shown, so the filter is never asked about them) and
  accepts a text node unless its parent element carries one of the two marker classes or
  its text has no em-dash.  The accepted nodes are distinct objects, replacing one
  changes neither the text nor the parent of another, and they are processed in document
  order; so collecting them and then replacing each is the one traversal below, which
  replaces each accepted text node where it stands.  The flag says whether the parent
  element is a marker element.
\<close>

fun walk :: "bool \<Rightarrow> node \<Rightarrow> nat \<times> nat \<Rightarrow> node list \<times> nat \<times> nat"
  and walks :: "bool \<Rightarrow> node list \<Rightarrow> nat \<times> nat \<Rightarrow> node list \<times> nat \<times> nat" where
  "walk pm (Text i t) ctx =
     (if pm \<or> EM_DASH \<notin> set t then ([Text i t], ctx)
      else highlightTextNode (Text i t) True ctx)"
| "walk pm (Element i tag cls ch) ctx =
     (let (ch', ctx') = walks (isMarker cls) ch ctx in ([Element i tag cls ch'], ctx'))"
| "walks pm [] ctx = ([], ctx)"
| "walks pm (x # xs) ctx =
     (let (ys, ctx1) = walk pm x ctx; (zs, ctx2) = walks pm xs ctx1 in (ys @ zs, ctx2))"

text \<open>\<open>walkTextNodes(element)\<close>: the skip list is tested on the element passed in, and
  on nothing else.\<close>

definition walkTextNodes :: "node \<Rightarrow> nat \<times> nat \<Rightarrow> node \<times> nat \<times> nat" where
  "walkTextNodes element ctx =
     (if tagName element \<in> set skipTags then (element, ctx)
      else
        let (ch', ctx') = walks (isMarker (classList element)) (childNodes element) ctx
        in (Element (nid element) (tagName element) (classList element) ch', ctx'))"

section \<open>Banner\<close>

text \<open>\<open>String(n)\<close> for a counter value: its decimal digits.\<close>

fun numberToString :: "nat \<Rightarrow> jsstring" where
  "numberToString n =
     (if n < 10 then [48 + n] else numberToString (n div 10) @ [48 + n mod 10])"

declare numberToString.simps [simp del]

text \<open>\<open>node.remove()\<close> for the node with identity \<open>b\<close>: it leaves its parent's child
  list.\<close>

fun removeNode :: "nat \<Rightarrow> node \<Rightarrow> node" and removeNodes :: "nat \<Rightarrow> node list \<Rightarrow> node list" where
  "removeNode b (Text i t) = Text i t"
| "removeNode b (Element i tag cls ch) = Element i tag cls (removeNodes b ch)"
| "removeNodes b [] = []"
| "removeNodes b (x # xs) =
     (if nid x = b then removeNodes b xs else removeNode b x # removeNodes b xs)"

definition removeBanner :: "state \<Rightarrow> state" where
  "removeBanner s =
     (case warningBanner s of
        None \<Rightarrow> s
      | Some b \<Rightarrow> s\<lparr>bodyChildren := removeNodes b (bodyChildren s), warningBanner := None\<rparr>)"

text \<open>The children that parsing the \<open>innerHTML\<close> template gives the banner: the two
  spans and the white space around them.\<close>

definition bannerContent :: "nat \<Rightarrow> nat \<Rightarrow> node list" where
  "bannerContent n count =
     [Text n (10 # replicate 8 32),
      Element (n + 1) ''SPAN'' [textClass] [Text (n + 2) (ascii ''Em Dashes'')],
      Text (n + 3) (10 # replicate 8 32),
      Element (n + 4) ''SPAN'' [countClass] [Text (n + 5) (numberToString count)],
      Text (n + 6) (10 # replicate 6 32)]"

text \<open>\<open>querySelector(".mdash-warning-count")\<close> among the descendants, and
  \<open>countEl.textContent = \<dots>\<close> on the first match: its children are replaced by one new
  text node.  The flag says whether a match was found.\<close>

fun setCount :: "jsstring \<Rightarrow> nat \<Rightarrow> node \<Rightarrow> node \<times> bool"
  and setCountL :: "jsstring \<Rightarrow> nat \<Rightarrow> node list \<Rightarrow> node list \<times> bool" where
  "setCount str n (Text i t) = (Text i t, False)"
| "setCount str n (Element i tag cls ch) =
     (if countClass \<in> set cls then (Element i tag cls [Text n str], True)
      else let (ch', found) = setCountL str n ch in (Element i tag cls ch', found))"
| "setCountL str n [] = ([], False)"
| "setCountL str n (x # xs) =
     (let (x', found) = setCount str n x in
      if found then (x' # xs, True)
      else let (xs', found') = setCountL str n xs in (x # xs', found'))"

text \<open>The update branch applied to the element with identity \<open>b\<close>, where it stands in
  the body.  (A banner that the page has taken out of the body is updated out of sight.)\<close>

fun updateCountAt :: "nat \<Rightarrow> jsstring \<Rightarrow> nat \<Rightarrow> node \<Rightarrow> node"
  and updateCountAtL :: "nat \<Rightarrow> jsstring \<Rightarrow> nat \<Rightarrow> node list \<Rightarrow> node list" where
  "updateCountAt b str n (Text i t) = Text i t"
| "updateCountAt b str n (Element i tag cls ch) =
     (if i = b then Element i tag cls (fst (setCountL str n ch))
      else Element i tag cls (updateCountAtL b str n ch))"
| "updateCountAtL b str n [] = []"
| "updateCountAtL b str n (x # xs) = updateCountAt b str n x # updateCountAtL b str n xs"

definition updateWarningBanner :: "state \<Rightarrow> state" where
  "updateWarningBanner s =
     (if emDashCount s = 0 then removeBanner s
      else
        (case warningBanner s of
           None \<Rightarrow>
             let n = nextId s in
             s\<lparr>warningBanner := Some n,
               bodyChildren := bodyChildren s @
                 [Element n ''DIV'' [bannerClass] (bannerContent (n + 1) (emDashCount s))],
               nextId := n + 8\<rparr>
         | Some b \<Rightarrow>
             s\<lparr>bodyChildren :=
                 updateCountAtL b (numberToString (emDashCount s)) (nextId s) (bodyChildren s),
               nextId := Suc (nextId s)\<rparr>))"

section \<open>Full-page scan\<close>

definition walkBody :: "state \<Rightarrow> state" where
  "walkBody s =
     (let (b, cnt, n) = walkTextNodes (documentBody s) (emDashCount s, nextId s)
      in s\<lparr>bodyChildren := childNodes b, emDashCount := cnt, nextId := n\<rparr>)"

definition scanPage :: "state \<Rightarrow> state" where
  "scanPage s =
     (let s1 = walkBody (s\<lparr>emDashCount := 0\<rparr>);
          s2 = (if emDashCount s1 > 0 then injectSparkleSvg s1 else s1)
      in updateWarningBanner s2)"

section \<open>Debounced rescan\<close>

text \<open>
  \<open>debouncedRescan = debounce(scanPage, 100)\<close>.  \<open>setTimeout\<close> hands out a new handle and
  puts it among the pending timers of the host; \<open>clearTimeout\<close> takes a handle out.  The
  handles of the host are positive, so \<open>if (debounceTimeout)\<close> is the test for non-null.
  Every timer the script ever sets is the debounce callback (\<open>debounceTimeout = null;
  fn(...args)\<close> with \<open>fn = scanPage\<close>).
\<close>

definition debouncedRescan :: "state \<Rightarrow> state" where
  "debouncedRescan s =
     (let s1 = (case debounceTimeout s of
                  Some h \<Rightarrow> s\<lparr>timers := removeAll h (timers s)\<rparr>
                | None \<Rightarrow> s);
          h = nextId s1
      in s1\<lparr>debounceTimeout := Some h, timers := timers s1 @ [h], nextId := Suc h\<rparr>)"

definition cancelDebounced :: "state \<Rightarrow> state" where
  "cancelDebounced s =
     (case debounceTimeout s of
        Some h \<Rightarrow> s\<lparr>timers := removeAll h (timers s), debounceTimeout := None\<rparr>
      | None \<Rightarrow> s)"

definition timerFires :: "nat \<Rightarrow> state \<Rightarrow> state" where
  "timerFires h s =
     (if h \<in> set (timers s)
      then scanPage (s\<lparr>timers := removeAll h (timers s), debounceTimeout := None\<rparr>)
      else s)"

section \<open>Mutation handler\<close>

definition containsHighlights :: "node \<Rightarrow> bool" where
  "containsHighlights node =
     (case node of
        Text i t \<Rightarrow> False
      | Element i tag cls ch \<Rightarrow>
          if highlightClass \<in> set cls then True else 0 < highlightsL ch)"

text \<open>
  A node of a mutation record is a reference.  The handler only reads the removed nodes,
  so a record gives them as they are when the handler looks at them.  It changes the added
  ones, so a record names an added node by where it is when the handler reaches it: in the
  body, by its identity, or outside the document, as the root of a detached tree
  (\<open>parentNode\<close> null).
\<close>

datatype noderef = InBody nat | Detached node

record mutationRecord =
  removedNodes :: "node list"
  addedNodes :: "noderef list"

fun findNode :: "nat \<Rightarrow> node \<Rightarrow> node option" and findNodeL :: "nat \<Rightarrow> node list \<Rightarrow> node option" where
  "findNode i (Text j t) = (if j = i then Some (Text j t) else None)"
| "findNode i (Element j tag cls ch) =
     (if j = i then Some (Element j tag cls ch) else findNodeL i ch)"
| "findNodeL i [] = None"
| "findNodeL i (x # xs) = (case findNode i x of Some y \<Rightarrow> Some y | None \<Rightarrow> findNodeL i xs)"

text \<open>An operation on the node with identity \<open>i\<close> (the first in document order), carried
  out where the node stands: the nodes the operation leaves in its place go into the
  child list of its parent.  \<open>None\<close> when there is no such node.\<close>

fun applyAt :: "nat \<Rightarrow> (node \<Rightarrow> nat \<times> nat \<Rightarrow> node list \<times> nat \<times> nat) \<Rightarrow> node \<Rightarrow> nat \<times> nat
      \<Rightarrow> (node list \<times> nat \<times> nat) option"
  and applyAtL :: "nat \<Rightarrow> (node \<Rightarrow> nat \<times> nat \<Rightarrow> node list \<times> nat \<times> nat) \<Rightarrow> node list \<Rightarrow> nat \<times> nat
      \<Rightarrow> (node list \<times> nat \<times> nat) option" where
  "applyAt i f (Text j t) ctx = (if j = i then Some (f (Text j t) ctx) else None)"
| "applyAt i f (Element j tag cls ch) ctx =
     (if j = i then Some (f (Element j tag cls ch) ctx)
      else (case applyAtL i f ch ctx of
              None \<Rightarrow> None
            | Some (ch', ctx') \<Rightarrow> Some ([Element j tag cls ch'], ctx')))"
| "applyAtL i f [] ctx = None"
| "applyAtL i f (x # xs) ctx =
     (case applyAt i f x ctx of
        Some (ys, ctx') \<Rightarrow> Some (ys @ xs, ctx')
      | None \<Rightarrow>
          (case applyAtL i f xs ctx of
             None \<Rightarrow> None
           | Some (xs', ctx') \<Rightarrow> Some (x # xs', ctx')))"

definition walkElement :: "node \<Rightarrow> nat \<times> nat \<Rightarrow> node list \<times> nat \<times> nat" where
  "walkElement el ctx = (let (el', ctx') = walkTextNodes el ctx in ([el'], ctx'))"

text \<open>The body of \<open>mutation.removedNodes.forEach\<close>, on the flag \<open>needsFullRescan\<close>.\<close>

definition removedNode :: "node \<Rightarrow> bool \<Rightarrow> bool" where
  "removedNode node needsFullRescan =
     (case node of
        Text i t \<Rightarrow> needsFullRescan
      | Element i tag cls ch \<Rightarrow>
          if bannerClass \<in> set cls then needsFullRescan
          else if containsHighlights node then True
          else needsFullRescan)"

text \<open>The body of \<open>mutation.addedNodes.forEach\<close>, on the state and the flag
  \<open>needsUpdate\<close>.  An added text node goes to \<open>highlightTextNode\<close> directly, whatever its
  parent is.\<close>

definition addedElement :: "node \<Rightarrow> (nat \<times> nat \<Rightarrow> (node list \<times> nat \<times> nat) option) \<Rightarrow> state \<times> bool \<Rightarrow> state \<times> bool" where
  "addedElement el run sb =
     (let (s, needsUpdate) = sb in
      if highlightClass \<in> set (classList el) then sb
      else if bannerClass \<in> set (classList el) then sb
      else
        (case run (emDashCount s, nextId s) of
           None \<Rightarrow> sb
         | Some (ch', cnt, n) \<Rightarrow>
             (s\<lparr>bodyChildren := ch', emDashCount := cnt, nextId := n\<rparr>, True)))"

definition addedText :: "node \<Rightarrow> (nat \<times> nat \<Rightarrow> (node list \<times> nat \<times> nat) option) \<Rightarrow> state \<times> bool \<Rightarrow> state \<times> bool" where
  "addedText textNode run sb =
     (let (s, needsUpdate) = sb in
      if EM_DASH \<in> set (textOf textNode) then
        (case run (emDashCount s, nextId s) of
           None \<Rightarrow> sb
         | Some (ch', cnt, n) \<Rightarrow>
             (s\<lparr>bodyChildren := ch', emDashCount := cnt, nextId := n\<rparr>, True))
      else sb)"

text \<open>For a node in the body the operation runs where the node stands; for a detached
  node it runs on the node alone and the body stays as it is.\<close>

definition addedNode :: "noderef \<Rightarrow> state \<times> bool \<Rightarrow> state \<times> bool" where
  "addedNode r sb =
     (let body = bodyChildren (fst sb) in
      case r of
        InBody i \<Rightarrow>
          (case findNodeL i body of
             None \<Rightarrow> sb
           | Some (Element j tag cls ch) \<Rightarrow>
               addedElement (Element j tag cls ch) (applyAtL i walkElement body) sb
           | Some (Text j t) \<Rightarrow>
               addedText (Text j t) (applyAtL i (\<lambda>x. highlightTextNode x True) body) sb)
      | Detached (Element j tag cls ch) \<Rightarrow>
          addedElement (Element j tag cls ch)
            (\<lambda>ctx. Some (body, snd (walkElement (Element j tag cls ch) ctx))) sb
      | Detached (Text j t) \<Rightarrow>
          addedText (Text j t)
            (\<lambda>ctx. Some (body, snd (highlightTextNode (Text j t) False ctx))) sb)"

definition mutationStep :: "mutationRecord \<Rightarrow> state \<times> bool \<times> bool \<Rightarrow> state \<times> bool \<times> bool" where
  "mutationStep mutation acc =
     (let (s, needsUpdate, needsFullRescan) = acc;
          needsFullRescan' = fold removedNode (removedNodes mutation) needsFullRescan;
          (s', needsUpdate') = fold addedNode (addedNodes mutation) (s, needsUpdate)
      in (s', needsUpdate', needsFullRescan'))"

text \<open>The callback of the \<open>MutationObserver\<close>.\<close>

definition onMutations :: "mutationRecord list \<Rightarrow> state \<Rightarrow> state" where
  "onMutations mutations s =
     (let (s', needsUpdate, needsFullRescan) = fold mutationStep mutations (s, False, False)
      in if needsFullRescan then debouncedRescan s'
         else if needsUpdate then updateWarningBanner s'
         else s')"

section \<open>Lifecycle\<close>

text \<open>\<open>addEventListener\<close> ignores a listener that is registered already (same type and
  callback); \<open>removeEventListener\<close> takes the listener out if it is there.\<close>

definition addEventListener :: "string \<Rightarrow> callback \<Rightarrow> bool \<Rightarrow> state \<Rightarrow> state" where
  "addEventListener ty cb once s =
     (if list_ex (\<lambda>(t, c, onc). t = ty \<and> c = cb) (windowListeners s) then s
      else s\<lparr>windowListeners := windowListeners s @ [(ty, cb, once)]\<rparr>)"

definition removeEventListener :: "string \<Rightarrow> callback \<Rightarrow> state \<Rightarrow> state" where
  "removeEventListener ty cb s =
     s\<lparr>windowListeners := filter (\<lambda>(t, c, onc). \<not> (t = ty \<and> c = cb)) (windowListeners s)\<rparr>"

definition cleanup :: "state \<Rightarrow> state" where
  "cleanup s =
     (let s1 = cancelDebounced s;
          s2 = (case mutationObserver s1 of
                  Some h \<Rightarrow> s1\<lparr>observing := removeAll h (observing s1), mutationObserver := None\<rparr>
                | None \<Rightarrow> s1);
          s3 = removeEventListener ''popstate'' DebouncedRescan s2;
          s4 = removeEventListener ''hashchange'' DebouncedRescan s3;
          s5 = (if historyPatched s4
                then s4\<lparr>historyPushState := BoundOriginal,
                        historyReplaceState := BoundOriginal,
                        historyPatched := False\<rparr>
                else s4)
      in removeBanner s5)"

definition observeChanges :: "state \<Rightarrow> state" where
  "observeChanges s =
     (let s1 = (case mutationObserver s of
                  Some h \<Rightarrow> s\<lparr>observing := removeAll h (observing s)\<rparr>
                | None \<Rightarrow> s);
          h = nextId s1;
          s2 = s1\<lparr>mutationObserver := Some h, observing := observing s1 @ [h], nextId := Suc h\<rparr>;
          s3 = addEventListener ''popstate'' DebouncedRescan False s2;
          s4 = addEventListener ''hashchange'' DebouncedRescan False s3;
          s5 = (if \<not> historyPatched s4
                then s4\<lparr>historyPushState := Wrapper,
                        historyReplaceState := Wrapper,
                        historyPatched := True\<rparr>
                else s4)
      in addEventListener ''pagehide'' Cleanup True s5)"

text \<open>The last lines of the script, once the document is ready.\<close>

definition startup :: "state \<Rightarrow> state" where
  "startup s = observeChanges (scanPage s)"

section \<open>The host's side: what can happen to the script\<close>

text \<open>The host runs the observer's callback once for every observer subscribed to the
  body; every observer of the script has the callback \<open>onMutations\<close>.\<close>

definition deliverMutations :: "mutationRecord list \<Rightarrow> state \<Rightarrow> state" where
  "deliverMutations mutations s = fold (\<lambda>h. onMutations mutations) (observing s) s"

definition invoke :: "callback \<Rightarrow> state \<Rightarrow> state" where
  "invoke cb s = (case cb of DebouncedRescan \<Rightarrow> debouncedRescan s | Cleanup \<Rightarrow> cleanup s)"

text \<open>An event on \<open>window\<close>: the listeners registered for its type run in the order of
  registration, one that is no longer registered when its turn comes is passed over, and
  a \<open>once\<close> listener is taken out before it runs.\<close>

definition dispatchTo :: "string \<Rightarrow> string \<times> callback \<times> bool \<Rightarrow> state \<Rightarrow> state" where
  "dispatchTo ty l s =
     (case l of (t, cb, once) \<Rightarrow>
        if t = ty \<and> l \<in> set (windowListeners s)
        then invoke cb (if once then s\<lparr>windowListeners := removeAll l (windowListeners s)\<rparr> else s)
        else s)"

definition dispatchEvent :: "string \<Rightarrow> state \<Rightarrow> state" where
  "dispatchEvent ty s = fold (dispatchTo ty) (windowListeners s) s"

text \<open>The host's own \<open>pushState\<close> and \<open>replaceState\<close> (with the current entry the last
  one), and a call of whatever stands in \<open>history.pushState\<close> and
  \<open>history.replaceState\<close>.\<close>

definition nativePushState :: "nat \<Rightarrow> state \<Rightarrow> state" where
  "nativePushState e s = s\<lparr>sessionHistory := sessionHistory s @ [e]\<rparr>"

definition nativeReplaceState :: "nat \<Rightarrow> state \<Rightarrow> state" where
  "nativeReplaceState e s = s\<lparr>sessionHistory := butlast (sessionHistory s) @ [e]\<rparr>"

definition callPushState :: "nat \<Rightarrow> state \<Rightarrow> state" where
  "callPushState e s =
     (case historyPushState s of
        Wrapper \<Rightarrow> debouncedRescan (nativePushState e s)
      | _ \<Rightarrow> nativePushState e s)"

definition callReplaceState :: "nat \<Rightarrow> state \<Rightarrow> state" where
  "callReplaceState e s =
     (case historyReplaceState s of
        Wrapper \<Rightarrow> debouncedRescan (nativeReplaceState e s)
      | _ \<Rightarrow> nativeReplaceState e s)"

datatype event =
    Mutations "mutationRecord list"
  | TimerFires nat
  | WindowEvent string
  | PushState nat
  | ReplaceState nat

fun step :: "event \<Rightarrow> state \<Rightarrow> state" where
  "step (Mutations ms) s = deliverMutations ms s"
| "step (TimerFires h) s = timerFires h s"
| "step (WindowEvent ty) s = dispatchEvent ty s"
| "step (PushState e) s = callPushState e s"
| "step (ReplaceState e) s = callReplaceState e s"

definition run :: "event list \<Rightarrow> state \<Rightarrow> state" where
  "run es s = fold step es s"

section \<open>Measures and example documents used in the statements\<close>

text \<open>\<open>parts.join(EM_DASH)\<close>, the inverse of \<open>split\<close>.\<close>

fun joinParts :: "jsstring list \<Rightarrow> jsstring" where
  "joinParts [] = []"
| "joinParts [p] = p"
| "joinParts (p # q # ps) = p @ EM_DASH # joinParts (q # ps)"

text \<open>
  The em-dashes of a subtree that the walker matches: those in text nodes whose parent
  element carries neither marker class (the test of the \<open>acceptNode\<close> filter).  The
  flag says whether the parent of the node is a marker element.
\<close>

fun matchedDashes :: "bool \<Rightarrow> node \<Rightarrow> nat" and matchedDashesL :: "bool \<Rightarrow> node list \<Rightarrow> nat" where
  "matchedDashes pm (Text i t) = (if pm then 0 else count_list t EM_DASH)"
| "matchedDashes pm (Element i tag cls ch) = matchedDashesL (isMarker cls) ch"
| "matchedDashesL pm [] = 0"
| "matchedDashesL pm (x # xs) = matchedDashes pm x + matchedDashesL pm xs"

text \<open>
  The em-dashes of a subtree that lie outside the existing highlight and banner
  elements, as the specification has it: those in text nodes none of whose ancestors
  carries a marker class.  The flag says whether the node lies inside a marker element.
\<close>

fun dashesOutside :: "bool \<Rightarrow> node \<Rightarrow> nat" and dashesOutsideL :: "bool \<Rightarrow> node list \<Rightarrow> nat" where
  "dashesOutside inside (Text i t) = (if inside then 0 else count_list t EM_DASH)"
| "dashesOutside inside (Element i tag cls ch) = dashesOutsideL (inside \<or> isMarker cls) ch"
| "dashesOutsideL inside [] = 0"
| "dashesOutsideL inside (x # xs) = dashesOutside inside x + dashesOutsideL inside xs"

text \<open>
  A subtree whose marker elements are flat as far as em-dashes go: a text node that
  lies inside a marker element without being a child of one holds no em-dash.  It is so
  for the elements the script makes (a highlight element has its one character as its
  only child, and the spans of the banner hold no em-dash).  The flag says whether the
  node lies inside a marker element.
\<close>

fun flat :: "bool \<Rightarrow> node \<Rightarrow> bool" and flatL :: "bool \<Rightarrow> node list \<Rightarrow> bool" where
  "flat inside (Text i t) = True"
| "flat inside (Element i tag cls ch) =
     ((if inside \<and> \<not> isMarker cls then EM_DASH \<notin> set (concat (map textOf ch)) else True) \<and>
      flatL (inside \<or> isMarker cls) ch)"
| "flatL inside [] = True"
| "flatL inside (x # xs) = (flat inside x \<and> flatL inside xs)"

text \<open>The text content of the page proper: \<open>textContent\<close> with the banner elements
  left out.\<close>

fun pageText :: "node \<Rightarrow> jsstring" and pageTexts :: "node list \<Rightarrow> jsstring" where
  "pageText (Text i t) = t"
| "pageText (Element i tag cls ch) = (if bannerClass \<in> set cls then [] else pageTexts ch)"
| "pageTexts [] = []"
| "pageTexts (x # xs) = pageText x @ pageTexts xs"

text \<open>
  The banner as the script keeps it: the object \<open>warningBanner\<close> refers to was allocated
  earlier, it is an element of the banner class (and not of the highlight class), and
  it holds no highlight element.  \<open>updateWarningBanner\<close> makes the banner so, and the
  scanner leaves it so in a flat document.
\<close>

fun intactAt :: "nat \<Rightarrow> node \<Rightarrow> bool" and intactAtL :: "nat \<Rightarrow> node list \<Rightarrow> bool" where
  "intactAt b (Text i t) = (i \<noteq> b)"
| "intactAt b (Element i tag cls ch) =
     ((if i = b
       then bannerClass \<in> set cls \<and> highlightClass \<notin> set cls \<and> highlightsL ch = 0
       else True) \<and> intactAtL b ch)"
| "intactAtL b [] = True"
| "intactAtL b (x # xs) = (intactAt b x \<and> intactAtL b xs)"

definition bannerIntact :: "state \<Rightarrow> bool" where
  "bannerIntact s =
     (case warningBanner s of
        None \<Rightarrow> True
      | Some b \<Rightarrow> b < nextId s \<and> intactAtL b (bodyChildren s))"

text \<open>A page as the script finds it when it starts: the given children under the body,
  every variable at its initial value, nothing pending in the host.\<close>

definition page :: "node list \<Rightarrow> state" where
  "page ch = \<lparr>svgInjected = False, emDashCount = 0, warningBanner = None,
     mutationObserver = None, debounceTimeout = None, historyPatched = False,
     sparkleBgWrites = 0, bodyId = 0, bodyClasses = [], bodyChildren = ch, nextId = 100,
     timers = [], observing = [], windowListeners = [], historyPushState = Native,
     historyReplaceState = Native, sessionHistory = []\<rparr>"

text \<open>The texts \<open>a\<emdash>b\<emdash>c\<close> and \<open>x\<emdash>y\<close> of the specification's examples.\<close>

definition abc :: jsstring where
  "abc = [97, EM_DASH, 98, EM_DASH, 99]"

definition xy :: jsstring where
  "xy = [120, EM_DASH, 121]"

text \<open>The body with the content of every count element taken out: what a change of
  the displayed count alone leaves as it was.\<close>

fun withoutCount :: "node \<Rightarrow> node" and withoutCountL :: "node list \<Rightarrow> node list" where
  "withoutCount (Text i t) = Text i t"
| "withoutCount (Element i tag cls ch) =
     Element i tag cls (if countClass \<in> set cls then [] else withoutCountL ch)"
| "withoutCountL [] = []"
| "withoutCountL (x # xs) = withoutCount x # withoutCountL xs"

text \<open>The count the banner displays: the text of the first element of the count class
  inside the banner element, when the banner stands in the body and has one.\<close>

fun firstCount :: "node \<Rightarrow> jsstring option" and firstCountL :: "node list \<Rightarrow> jsstring option" where
  "firstCount (Text i t) = None"
| "firstCount (Element i tag cls ch) =
     (if countClass \<in> set cls then Some (textContents ch) else firstCountL ch)"
| "firstCountL [] = None"
| "firstCountL (x # xs) = (case firstCount x of Some t \<Rightarrow> Some t | None \<Rightarrow> firstCountL xs)"

definition displayedCount :: "state \<Rightarrow> jsstring option" where
  "displayedCount s =
     (case warningBanner s of
        None \<Rightarrow> None
      | Some b \<Rightarrow>
          (case findNodeL b (bodyChildren s) of
             None \<Rightarrow> None
           | Some el \<Rightarrow> firstCountL (childNodes el)))"

text \<open>
  The host and the script agree: the pending timers are the one \<open>debounceTimeout\<close>
  holds, the subscribed observers the one \<open>mutationObserver\<close> holds, the listeners on
  \<open>window\<close> are those \<open>observeChanges\<close> registers, and a wrapper stands in the history
  object only while \<open>historyPatched\<close> is set.  It holds when the script starts and every
  operation keeps it (\<open>hostConsistent_run\<close> below).
\<close>

definition hostConsistent :: "state \<Rightarrow> bool" where
  "hostConsistent s \<longleftrightarrow>
     timers s = (case debounceTimeout s of None \<Rightarrow> [] | Some h \<Rightarrow> [h]) \<and>
     observing s = (case mutationObserver s of None \<Rightarrow> [] | Some h \<Rightarrow> [h]) \<and>
     list_all (\<lambda>(t, c, onc). if c = DebouncedRescan then t = ''popstate'' \<or> t = ''hashchange''
                              else t = ''pagehide'') (windowListeners s) \<and>
     (historyPatched s \<or> (historyPushState s \<noteq> Wrapper \<and> historyReplaceState s \<noteq> Wrapper))"

text \<open>The events that could lead to a rescan: a mutation batch, a timer, a navigation
  event (any event on \<open>window\<close> but the page-hide event itself).\<close>

definition quiet :: "event \<Rightarrow> bool" where
  "quiet e =
     (case e of
        Mutations ms \<Rightarrow> True
      | TimerFires h \<Rightarrow> True
      | WindowEvent ty \<Rightarrow> ty \<noteq> ''pagehide''
      | PushState x \<Rightarrow> False
      | ReplaceState x \<Rightarrow> False)"

definition tornDown :: "state \<Rightarrow> bool" where
  "tornDown s \<longleftrightarrow>
     timers s = [] \<and> observing s = [] \<and>
     list_all (\<lambda>(t, c, onc). t = ''pagehide'') (windowListeners s) \<and>
     historyPushState s \<noteq> Wrapper \<and> historyReplaceState s \<noteq> Wrapper"

text \<open>The page of the example after the script has started, with a rescan pending and
  the counter then raised to 5 by incremental scans.\<close>

definition exampleRunning :: state where
  "exampleRunning = (debouncedRescan (startup (page [Text 1 abc])))\<lparr>emDashCount := 5\<rparr>"

text \<open>The part of the state that the host and the lifecycle code share.\<close>

definition hostPart :: "state \<Rightarrow> nat list \<times> nat option \<times> nat list \<times> nat option \<times>
    (string \<times> callback \<times> bool) list \<times> bool \<times> histfn \<times> histfn" where
  "hostPart s = (timers s, debounceTimeout s, observing s, mutationObserver s,
     windowListeners s, historyPatched s, historyPushState s, historyReplaceState s)"





text \<open>
  The example page after start-up with a paragraph \<open>x\<emdash>y\<close> then added under the body by
  the page, and a page without any em-dash after start-up with the same paragraph added.
\<close>

definition exampleAdded :: state where
  "exampleAdded =
     (startup (page [Text 1 abc]))\<lparr>bodyChildren :=
        bodyChildren (startup (page [Text 1 abc])) @ [Element 50 ''P'' [] [Text 51 xy]]\<rparr>"

definition exampleLate :: state where
  "exampleLate =
     (startup (page [Element 1 ''P'' [] [Text 2 [104, 105]]]))\<lparr>bodyChildren :=
        bodyChildren (startup (page [Element 1 ''P'' [] [Text 2 [104, 105]]])) @
          [Element 50 ''P'' [] [Text 51 xy]]\<rparr>"

text \<open>The example page after start-up with the first highlight span taken out by the
  page.\<close>

definition exampleRemoved :: state where
  "exampleRemoved =
     (startup (page [Text 1 abc]))\<lparr>bodyChildren :=
        removeNodes 101 (bodyChildren (startup (page [Text 1 abc])))\<rparr>"


text \<open>The number of elements of the banner class in a subtree, the root included
  (\<open>querySelectorAll(".mdash-warning-banner").length\<close> plus the root's own match).\<close>

fun banners :: "node \<Rightarrow> nat" and bannersL :: "node list \<Rightarrow> nat" where
  "banners (Text i t) = 0"
| "banners (Element i tag cls ch) = (if bannerClass \<in> set cls then 1 else 0) + bannersL ch"
| "bannersL [] = 0"
| "bannersL (x # xs) = banners x + bannersL xs"

text \<open>The example page after start-up, where the page has then taken the banner out of
  the body and added a paragraph \<open>x\<emdash>y\<close>.\<close>

definition exampleUnbannered :: state where
  "exampleUnbannered =
     exampleAdded\<lparr>bodyChildren := removeNodes 107 (bodyChildren exampleAdded)\<rparr>"

text \<open>A paragraph \<open>x\<emdash>y\<close> in bold inside a highlight element of the page's own: the
  em-dash lies inside a highlight element, its text node is the child of the \<open>B\<close>
  element.\<close>

definition nestedBody :: "node list" where
  "nestedBody = [Element 1 ''SPAN'' [highlightClass] [Element 2 ''B'' [] [Text 3 xy]]]"

text \<open>A running script (the state of the example after start-up) on a body that holds
  the text \<open>x\<emdash>y\<close> and the script's banner, element 107, in whose count element the
  page has put a highlight element of its own, holding \<open>z\<close>.\<close>

definition tamperedBody :: "node list" where
  "tamperedBody =
     [Text 1 xy,
      Element 107 ''DIV'' [bannerClass]
        [Element 112 ''SPAN'' [countClass]
           [Element 60 ''SPAN'' [highlightClass] [Text 61 [122]]]]]"

definition exampleTampered :: state where
  "exampleTampered = (startup (page [Text 1 abc]))\<lparr>bodyChildren := tamperedBody\<rparr>"

section \<open>The development server's live-reload notifier\<close>

text \<open>
  The state of the development server that the notifier touches: the flag
  \<open>startupGrace\<close>, the clock in milliseconds since the server started, the due times of
  the two timeouts that can be pending (the one that ends the grace period, set for
  1000 ms at start, and the one of the debounced \<open>notifyClients\<close>), the connected clients
  (for each, whether its stream still takes data) and the number of reload messages
  enqueued so far.
\<close>

record devServer =
  startupGrace :: bool
  clock :: nat
  graceTimer :: "nat option"
  notifyTimer :: "nat option"
  clients :: "bool list"
  reloadsSent :: nat

definition serverStart :: devServer where
  "serverStart = \<lparr>startupGrace = True, clock = 0, graceTimer = Some 1000, notifyTimer = None,
     clients = [], reloadsSent = 0\<rparr>"

text \<open>The function wrapped by \<open>debounce\<close>: nothing during the grace period; otherwise a
  reload message for every client, and a client whose \<open>enqueue\<close> throws is dropped.\<close>

definition notifyNow :: "devServer \<Rightarrow> devServer" where
  "notifyNow s =
     (if startupGrace s then s
      else s\<lparr>clients := filter id (clients s),
             reloadsSent := reloadsSent s + length (filter id (clients s))\<rparr>)"

text \<open>\<open>notifyClients = debounce(\<dots>, 300)\<close>: a call clears the pending timeout and sets
  a new one, 300 ms from now.\<close>

definition notifyClients :: "devServer \<Rightarrow> devServer" where
  "notifyClients s = s\<lparr>notifyTimer := Some (clock s + 300)\<rparr>"

text \<open>The two timeout callbacks, and time passing: the timeouts that are due fire in
  the order of their due times (the grace timeout, set first, before the other when both
  are due at the same time).\<close>

definition fireGrace :: "devServer \<Rightarrow> devServer" where
  "fireGrace s = s\<lparr>startupGrace := False, graceTimer := None\<rparr>"

definition fireNotify :: "devServer \<Rightarrow> devServer" where
  "fireNotify s = notifyNow (s\<lparr>notifyTimer := None\<rparr>)"

definition due :: "nat option \<Rightarrow> nat \<Rightarrow> bool" where
  "due timer t = (case timer of Some d \<Rightarrow> d \<le> t | None \<Rightarrow> False)"

definition elapse :: "nat \<Rightarrow> devServer \<Rightarrow> devServer" where
  "elapse d s =
     (let t = clock s + d;
          graceFirst = (case (graceTimer s, notifyTimer s) of
                          (Some g, Some m) \<Rightarrow> g \<le> m
                        | _ \<Rightarrow> True);
          s1 = (if due (graceTimer s) t \<and> due (notifyTimer s) t
                then (if graceFirst then fireNotify (fireGrace s) else fireGrace (fireNotify s))
                else if due (graceTimer s) t then fireGrace s
                else if due (notifyTimer s) t then fireNotify s
                else s)
      in s1\<lparr>clock := t\<rparr>)"

text \<open>What happens to the server: a watched file changes (the watcher calls
  \<open>notifyClients\<close>), a client connects, a client's stream closes, time passes.\<close>

datatype serverEvent = FileChanged | Connect | Close nat | Elapse nat

fun serverStep :: "serverEvent \<Rightarrow> devServer \<Rightarrow> devServer" where
  "serverStep FileChanged s = notifyClients s"
| "serverStep Connect s = s\<lparr>clients := clients s @ [True]\<rparr>"
| "serverStep (Close k) s = s\<lparr>clients := (clients s)[k := False]\<rparr>"
| "serverStep (Elapse d) s = elapse d s"

definition serverRun :: "serverEvent list \<Rightarrow> devServer \<Rightarrow> devServer" where
  "serverRun es s = fold serverStep es s"

text \<open>While the clock is below 1000 ms the grace flag is set, its timeout is pending
  and no reload message has been sent.\<close>

definition inGrace :: "devServer \<Rightarrow> bool" where
  "inGrace s \<longleftrightarrow> (if clock s < 1000
                  then startupGrace s \<and> graceTimer s = Some 1000 \<and> reloadsSent s = 0
                  else True)"


section \<open>Facts about splitting and the fragment\<close>

lemma split_not_Nil: "split t \<noteq> []"
  by (induction t) (auto split: list.splits)

lemma length_split: "length (split t) = Suc (count_list t EM_DASH)"
  using split_not_Nil by (induction t) (auto split: list.splits)

lemma joinParts_Cons:
  "joinParts (p # rest) = (if rest = [] then p else p @ EM_DASH # joinParts rest)"
  by (cases rest) auto

lemma joinParts_split: "joinParts (split t) = t"
proof (induction t)
  case Nil
  show ?case by simp
next
  case (Cons c cs)
  obtain p ps where sp: "split cs = p # ps"
    using split_not_Nil[of cs] by (cases "split cs") auto
  with Cons show ?case by (auto simp: joinParts_Cons split: if_splits)
qed

lemma no_dash_count: "EM_DASH \<notin> set t \<Longrightarrow> count_list t EM_DASH = 0"
  by (induction t) auto

lemma marker_classes_differ: "highlightClass \<noteq> bannerClass" "bannerClass \<noteq> highlightClass"
  by (simp_all add: highlightClass_def bannerClass_def)

lemma textContents_append [simp]: "textContents (xs @ ys) = textContents xs @ textContents ys"
  by (induction xs) auto

lemma pageTexts_append [simp]: "pageTexts (xs @ ys) = pageTexts xs @ pageTexts ys"
  by (induction xs) auto

lemma highlightsL_append [simp]: "highlightsL (xs @ ys) = highlightsL xs + highlightsL ys"
  by (induction xs) auto

lemma intactAtL_append [simp]: "intactAtL b (xs @ ys) = (intactAtL b xs \<and> intactAtL b ys)"
  by (induction xs) auto

lemma buildFragment_text:
  "buildFragment ps n = (fr, n') \<Longrightarrow> textContents fr = joinParts ps"
  by (induction ps arbitrary: n fr n') (auto simp: joinParts_Cons split: prod.splits if_splits)

lemma buildFragment_pageText:
  "buildFragment ps n = (fr, n') \<Longrightarrow> pageTexts fr = joinParts ps"
  by (induction ps arbitrary: n fr n')
     (auto simp: joinParts_Cons marker_classes_differ split: prod.splits if_splits)

lemma buildFragment_highlights:
  "buildFragment ps n = (fr, n') \<Longrightarrow> highlightsL fr = length ps - 1"
  by (induction ps arbitrary: n fr n') (auto split: prod.splits if_splits)

lemma buildFragment_alloc:
  "buildFragment ps n = (fr, n') \<Longrightarrow> n \<le> n'"
  by (induction ps arbitrary: n fr n') (fastforce split: prod.splits if_splits)+

lemma buildFragment_intact:
  "buildFragment ps n = (fr, n') \<Longrightarrow> b < n \<Longrightarrow> intactAtL b fr"
  by (induction ps arbitrary: n fr n') (fastforce split: prod.splits if_splits)+

lemma highlightTextNode_count:
  "highlightTextNode (Text i t) hp (c, n) = (ns, c', n') \<Longrightarrow> c' = c + count_list t EM_DASH"
  by (auto simp: highlightTextNode_def length_split no_dash_count split: prod.splits if_splits)

lemma highlightTextNode_attached:
  assumes "highlightTextNode (Text i t) True ctx = (ns, ctx')"
  shows "textContents ns = t" and "pageTexts ns = t"
    and "highlightsL ns = count_list t EM_DASH"
  using assms
  by (auto simp: highlightTextNode_def length_split no_dash_count joinParts_split
      dest: buildFragment_text buildFragment_pageText buildFragment_highlights
      split: prod.splits if_splits)

section \<open>The example documents, evaluated\<close>

lemmas scan_defs = scanPage_def walkBody_def walkTextNodes_def documentBody_def skipTags_def
  Let_def isMarker_def highlightTextNode_def EM_DASH_def updateWarningBanner_def
  injectSparkleSvg_def bannerContent_def removeBanner_def highlightClass_def bannerClass_def
  countClass_def textClass_def ascii_def numberToString.simps

lemmas handler_defs = onMutations_def mutationStep_def addedNode_def addedElement_def
  addedText_def walkElement_def removedNode_def containsHighlights_def deliverMutations_def

lemmas life_defs = startup_def observeChanges_def addEventListener_def debouncedRescan_def

lemma exampleAdded_eq:
  "exampleAdded =
     \<lparr>svgInjected = True, emDashCount = 2, warningBanner = Some 107,
      mutationObserver = Some 115, debounceTimeout = None, historyPatched = True,
      sparkleBgWrites = 1, bodyId = 0, bodyClasses = [],
      bodyChildren =
        [Text 100 [97],
         Element 101 ''SPAN'' [''mdash-highlight''] [Text 102 [8212]],
         Text 103 [98],
         Element 104 ''SPAN'' [''mdash-highlight''] [Text 105 [8212]],
         Text 106 [99],
         Element 107 ''DIV'' [''mdash-warning-banner'']
           [Text 108 (10 # replicate 8 32),
            Element 109 ''SPAN'' [''mdash-warning-text'']
              [Text 110 [69, 109, 32, 68, 97, 115, 104, 101, 115]],
            Text 111 (10 # replicate 8 32),
            Element 112 ''SPAN'' [''mdash-warning-count''] [Text 113 [50]],
            Text 114 (10 # replicate 6 32)],
         Element 50 ''P'' [] [Text 51 [120, 8212, 121]]],
      nextId = 116, timers = [], observing = [115],
      windowListeners =
        [(''popstate'', DebouncedRescan, False), (''hashchange'', DebouncedRescan, False),
         (''pagehide'', Cleanup, True)],
      historyPushState = Wrapper, historyReplaceState = Wrapper, sessionHistory = []\<rparr>"
  unfolding exampleAdded_def
  by (simp add: scan_defs life_defs page_def abc_def xy_def)


lemma exampleRunning_eq:
  "exampleRunning =
     \<lparr>svgInjected = True, emDashCount = 5, warningBanner = Some 107,
      mutationObserver = Some 115, debounceTimeout = Some 116, historyPatched = True,
      sparkleBgWrites = 1, bodyId = 0, bodyClasses = [],
      bodyChildren =
        [Text 100 [97],
         Element 101 ''SPAN'' [''mdash-highlight''] [Text 102 [8212]],
         Text 103 [98],
         Element 104 ''SPAN'' [''mdash-highlight''] [Text 105 [8212]],
         Text 106 [99],
         Element 107 ''DIV'' [''mdash-warning-banner'']
           [Text 108 (10 # replicate 8 32),
            Element 109 ''SPAN'' [''mdash-warning-text'']
              [Text 110 [69, 109, 32, 68, 97, 115, 104, 101, 115]],
            Text 111 (10 # replicate 8 32),
            Element 112 ''SPAN'' [''mdash-warning-count''] [Text 113 [50]],
            Text 114 (10 # replicate 6 32)]],
      nextId = 117, timers = [116], observing = [115],
      windowListeners =
        [(''popstate'', DebouncedRescan, False), (''hashchange'', DebouncedRescan, False),
         (''pagehide'', Cleanup, True)],
      historyPushState = Wrapper, historyReplaceState = Wrapper, sessionHistory = []\<rparr>"
  unfolding exampleRunning_def
  by (simp add: scan_defs startup_def observeChanges_def addEventListener_def
      debouncedRescan_def page_def abc_def)

lemma exampleLate_eq:
  "exampleLate =
     \<lparr>svgInjected = False, emDashCount = 0, warningBanner = None,
      mutationObserver = Some 100, debounceTimeout = None, historyPatched = True,
      sparkleBgWrites = 0, bodyId = 0, bodyClasses = [],
      bodyChildren = [Element 1 ''P'' [] [Text 2 [104, 105]], Element 50 ''P'' [] [Text 51 [120, 8212, 121]]],
      nextId = 101, timers = [], observing = [100],
      windowListeners =
        [(''popstate'', DebouncedRescan, False), (''hashchange'', DebouncedRescan, False),
         (''pagehide'', Cleanup, True)],
      historyPushState = Wrapper, historyReplaceState = Wrapper, sessionHistory = []\<rparr>"
  unfolding exampleLate_def
  by (simp add: scan_defs life_defs page_def xy_def)

section \<open>Facts about the walker\<close>

lemma walk_count:
  "walk pm x (c, n) = (ns, c', n') \<Longrightarrow> c' = c + matchedDashes pm x"
  "walks pm xs (c, n) = (ns, c', n') \<Longrightarrow> c' = c + matchedDashesL pm xs"
proof (induction pm x "(c, n)" and pm xs "(c, n)" arbitrary: c n ns c' n' and c n ns c' n'
    rule: walk_walks.induct)
  case (1 pm i t)
  then show ?case
    by (auto simp: no_dash_count dest: highlightTextNode_count split: if_splits)
next
  case (2 pm i tag cls ch)
  then show ?case by (auto split: prod.splits)
next
  case (3 pm)
  then show ?case by simp
next
  case (4 pm x xs)
  then show ?case by (fastforce split: prod.splits)
qed

lemma walk_text:
  "walk pm x ctx = (ns, ctx') \<Longrightarrow> textContents ns = textContent x"
  "walks pm xs ctx = (ns, ctx') \<Longrightarrow> textContents ns = textContents xs"
proof (induction pm x ctx and pm xs ctx arbitrary: ns ctx' and ns ctx' rule: walk_walks.induct)
  case (1 pm i t ctx)
  then show ?case by (auto dest: highlightTextNode_attached split: if_splits)
next
  case (2 pm i tag cls ch ctx)
  then show ?case by (auto split: prod.splits)
next
  case (3 pm ctx)
  then show ?case by simp
next
  case (4 pm x xs ctx)
  then show ?case by (fastforce split: prod.splits)
qed

lemma walk_pageText:
  "walk pm x ctx = (ns, ctx') \<Longrightarrow> pageTexts ns = pageText x"
  "walks pm xs ctx = (ns, ctx') \<Longrightarrow> pageTexts ns = pageTexts xs"
proof (induction pm x ctx and pm xs ctx arbitrary: ns ctx' and ns ctx' rule: walk_walks.induct)
  case (1 pm i t ctx)
  then show ?case by (auto dest: highlightTextNode_attached split: if_splits)
next
  case (2 pm i tag cls ch ctx)
  then show ?case by (auto split: prod.splits)
next
  case (3 pm ctx)
  then show ?case by simp
next
  case (4 pm x xs ctx)
  then show ?case by (fastforce split: prod.splits)
qed

lemma walk_highlights:
  "walk pm x ctx = (ns, ctx') \<Longrightarrow> highlightsL ns = highlights x + matchedDashes pm x"
  "walks pm xs ctx = (ns, ctx') \<Longrightarrow> highlightsL ns = highlightsL xs + matchedDashesL pm xs"
proof (induction pm x ctx and pm xs ctx arbitrary: ns ctx' and ns ctx' rule: walk_walks.induct)
  case (1 pm i t ctx)
  then show ?case
    by (auto simp: no_dash_count dest: highlightTextNode_attached split: if_splits)
next
  case (2 pm i tag cls ch ctx)
  then show ?case by (auto split: prod.splits)
next
  case (3 pm ctx)
  then show ?case by simp
next
  case (4 pm x xs ctx)
  then show ?case by (fastforce split: prod.splits)
qed

lemma walk_alloc:
  "walk pm x (c, n) = (ns, c', n') \<Longrightarrow> n \<le> n'"
  "walks pm xs (c, n) = (ns, c', n') \<Longrightarrow> n \<le> n'"
proof (induction pm x "(c, n)" and pm xs "(c, n)" arbitrary: c n ns c' n' and c n ns c' n'
    rule: walk_walks.induct)
  case (1 pm i t)
  then show ?case
    by (auto simp: highlightTextNode_def dest: buildFragment_alloc split: if_splits prod.splits)
next
  case (2 pm i tag cls ch)
  then show ?case by (auto split: prod.splits)
next
  case (3 pm)
  then show ?case by simp
next
  case (4 pm x xs)
  then show ?case by (fastforce split: prod.splits)
qed

lemma matchedDashes_none:
  "EM_DASH \<notin> set (textContent x) \<Longrightarrow> matchedDashes pm x = 0"
  "EM_DASH \<notin> set (textContents xs) \<Longrightarrow> matchedDashesL pm xs = 0"
  by (induction pm x and pm xs rule: matchedDashes_matchedDashesL.induct)
     (auto simp: no_dash_count)

lemma dashesOutside_inside:
  "dashesOutside True x = 0"
  "dashesOutsideL True xs = 0"
  by (induction "True" x and "True" xs rule: dashesOutside_dashesOutsideL.induct) auto

text \<open>In a flat subtree the em-dashes the walker matches are those outside the
  marker elements.\<close>

lemma matchedDashes_flat:
  "flat inside x \<Longrightarrow> (pm \<longrightarrow> inside) \<Longrightarrow> (inside \<and> \<not> pm \<longrightarrow> EM_DASH \<notin> set (textOf x)) \<Longrightarrow>
     matchedDashes pm x = dashesOutside inside x"
  "flatL inside xs \<Longrightarrow> (pm \<longrightarrow> inside) \<Longrightarrow>
     (inside \<and> \<not> pm \<longrightarrow> EM_DASH \<notin> set (concat (map textOf xs))) \<Longrightarrow>
     matchedDashesL pm xs = dashesOutsideL inside xs"
proof (induction pm x and pm xs arbitrary: inside and inside
    rule: matchedDashes_matchedDashesL.induct)
  case (1 pm i t)
  then show ?case by (auto simp: no_dash_count)
next
  case (2 pm i tag cls ch)
  have "matchedDashesL (isMarker cls) ch = dashesOutsideL (inside \<or> isMarker cls) ch"
    using "2.prems"(1) by (intro "2.IH") (auto split: if_splits)
  then show ?case by simp
next
  case (3 pm)
  show ?case by simp
next
  case (4 pm x xs)
  have "matchedDashes pm x = dashesOutside inside x"
    using "4.prems" by (intro "4.IH"(1)) auto
  moreover have "matchedDashesL pm xs = dashesOutsideL inside xs"
    using "4.prems" by (intro "4.IH"(2)) auto
  ultimately show ?case by simp
qed

lemma matchedDashes_in_marker: "flatL True xs \<Longrightarrow> matchedDashesL True xs = 0"
  using matchedDashes_flat(2)[of True xs True] by (simp add: dashesOutside_inside)

lemma walk_intact:
  "walk pm x (c, n) = (ns, c', n') \<Longrightarrow> b < n \<Longrightarrow> flat inside x \<Longrightarrow> intactAt b x \<Longrightarrow>
     intactAtL b ns"
  "walks pm xs (c, n) = (ns, c', n') \<Longrightarrow> b < n \<Longrightarrow> flatL inside xs \<Longrightarrow> intactAtL b xs \<Longrightarrow>
     intactAtL b ns"
proof (induction pm x "(c, n)" and pm xs "(c, n)"
    arbitrary: c n ns c' n' inside and c n ns c' n' inside rule: walk_walks.induct)
  case (1 pm i t)
  then show ?case
    by (auto simp: highlightTextNode_def dest: buildFragment_intact split: if_splits prod.splits)
next
  case (2 pm i tag cls ch)
  obtain ch' where w: "walks (isMarker cls) ch (c, n) = (ch', c', n')"
    and ns: "ns = [Element i tag cls ch']"
    using "2.prems"(1) by (auto split: prod.splits)
  have fl: "flatL (inside \<or> isMarker cls) ch"
    using "2.prems"(3) by simp
  have h: "highlightsL ch' = highlightsL ch + matchedDashesL (isMarker cls) ch"
    using w by (rule walk_highlights)
  have i: "intactAtL b ch'"
    using "2.hyps"[OF w "2.prems"(2) fl] "2.prems"(4) by simp
  show ?case
  proof (cases "i = b")
    case True
    with "2.prems"(4) have m: "isMarker cls" and z: "highlightsL ch = 0"
      by (simp_all add: isMarker_def)
    from fl m have "matchedDashesL (isMarker cls) ch = 0"
      by (simp add: matchedDashes_in_marker)
    with h z True "2.prems"(4) i ns show ?thesis by simp
  next
    case False
    with i ns show ?thesis by simp
  qed
next
  case (3 pm)
  then show ?case by simp
next
  case (4 pm x xs)
  obtain ys c1 n1 zs where x: "walk pm x (c, n) = (ys, c1, n1)"
    and xs: "walks pm xs (c1, n1) = (zs, c', n')" and ns: "ns = ys @ zs"
    using "4.prems"(1) by (auto split: prod.splits)
  have fx: "flat inside x" and fxs: "flatL inside xs"
    using "4.prems"(3) by simp_all
  have "n \<le> n1"
    using x by (rule walk_alloc)
  with "4.prems" have b1: "b < n1" by simp
  have "intactAtL b ys"
    using "4.hyps"(1)[OF x "4.prems"(2) fx] "4.prems"(4) by simp
  moreover have "intactAtL b zs"
    using "4.hyps"(2)[OF x[symmetric] refl xs b1 fxs] "4.prems"(4) by simp
  ultimately show ?case using ns by simp
qed

section \<open>Facts about the banner\<close>

lemma intactAt_self: "intactAt (nid x) x \<Longrightarrow> pageText x = [] \<and> highlights x = 0"
  by (cases x) auto

lemma removeNodes_intact:
  "intactAt b x \<Longrightarrow>
     pageText (removeNode b x) = pageText x \<and> highlights (removeNode b x) = highlights x"
  "intactAtL b xs \<Longrightarrow>
     pageTexts (removeNodes b xs) = pageTexts xs \<and> highlightsL (removeNodes b xs) = highlightsL xs"
  by (induction b x and b xs rule: removeNode_removeNodes.induct) (auto simp: intactAt_self)

lemma setCount_highlights:
  "highlights (fst (setCount str n x)) \<le> highlights x"
  "highlightsL (fst (setCountL str n xs)) \<le> highlightsL xs"
  by (induction str n x and str n xs rule: setCount_setCountL.induct)
     (auto split: prod.splits simp: Let_def add_le_mono)

lemma updateCountAt_intact:
  "intactAt b x \<Longrightarrow>
     pageText (updateCountAt b str n x) = pageText x \<and>
     highlights (updateCountAt b str n x) = highlights x"
  "intactAtL b xs \<Longrightarrow>
     pageTexts (updateCountAtL b str n xs) = pageTexts xs \<and>
     highlightsL (updateCountAtL b str n xs) = highlightsL xs"
proof (induction b str n x and b str n xs rule: updateCountAt_updateCountAtL.induct)
  case (2 b str n i tag cls ch)
  show ?case
  proof (cases "i = b")
    case True
    with "2.prems" have "highlightsL ch = 0" by simp
    with setCount_highlights(2)[of str n ch] have "highlightsL (fst (setCountL str n ch)) = 0"
      by simp
    with True "2.prems" show ?thesis by simp
  next
    case False
    with 2 show ?thesis by simp
  qed
qed auto

lemma bannerContent_highlights: "highlightsL (bannerContent n k) = 0"
  by (simp add: bannerContent_def highlightClass_def textClass_def countClass_def)

lemma updateWarningBanner_page:
  assumes "bannerIntact s"
  shows "pageTexts (bodyChildren (updateWarningBanner s)) = pageTexts (bodyChildren s)"
    and "highlightsL (bodyChildren (updateWarningBanner s)) = highlightsL (bodyChildren s)"
    and "emDashCount (updateWarningBanner s) = emDashCount s"
  using assms
  by (auto simp: updateWarningBanner_def removeBanner_def bannerIntact_def Let_def
      removeNodes_intact updateCountAt_intact bannerContent_highlights marker_classes_differ
      split: option.splits)

section \<open>The full-page scan\<close>

lemma walkBody_effect:
  "emDashCount (walkBody s) =
     emDashCount s + matchedDashesL (isMarker (bodyClasses s)) (bodyChildren s)"
  "highlightsL (bodyChildren (walkBody s)) =
     highlightsL (bodyChildren s) + matchedDashesL (isMarker (bodyClasses s)) (bodyChildren s)"
  "pageTexts (bodyChildren (walkBody s)) = pageTexts (bodyChildren s)"
  "textContents (bodyChildren (walkBody s)) = textContents (bodyChildren s)"
  "warningBanner (walkBody s) = warningBanner s"
  by (auto simp: walkBody_def walkTextNodes_def documentBody_def skipTags_def
      dest: walk_count walk_highlights walk_pageText walk_text split: prod.splits)

lemma walkBody_intact:
  assumes "bannerIntact s" and "flat False (documentBody s)"
  shows "bannerIntact (walkBody s)"
proof (cases "warningBanner s")
  case None
  then show ?thesis
    by (simp add: bannerIntact_def walkBody_effect)
next
  case (Some b)
  obtain ns c' n' where w: "walks (isMarker (bodyClasses s)) (bodyChildren s)
      (emDashCount s, nextId s) = (ns, c', n')"
    by (metis prod_cases3)
  have wb: "walkBody s = s\<lparr>bodyChildren := ns, emDashCount := c', nextId := n'\<rparr>"
    using w by (simp add: walkBody_def walkTextNodes_def documentBody_def skipTags_def)
  have b: "b < nextId s" "intactAtL b (bodyChildren s)"
    using assms(1) Some by (simp_all add: bannerIntact_def)
  have f: "flatL (False \<or> isMarker (bodyClasses s)) (bodyChildren s)"
    using assms(2) by (simp add: documentBody_def)
  have "intactAtL b ns"
    using w b(1) f b(2) by (rule walk_intact(2))
  moreover have "nextId s \<le> n'"
    using w by (rule walk_alloc(2))
  ultimately show ?thesis
    using Some b wb by (simp add: bannerIntact_def)
qed

lemma injectSparkleSvg_frame:
  "bodyChildren (injectSparkleSvg s) = bodyChildren s"
  "emDashCount (injectSparkleSvg s) = emDashCount s"
  "bannerIntact (injectSparkleSvg s) = bannerIntact s"
  by (simp_all add: injectSparkleSvg_def bannerIntact_def split: option.splits)

text \<open>
  C1 (as amended).  For every document body that is flat (no em-dash in a text node that
  lies inside a highlight or banner element without being a child of one) and in which
  the banner the script holds, if any, is as the script keeps it (\<open>bannerIntact\<close>): when
  the text of the body outside the existing highlight and banner elements holds exactly
  \<open>k\<close> em-dashes, \<open>scanPage\<close> leaves the counter at \<open>k\<close>, adds exactly \<open>k\<close> highlight
  elements to the body, and leaves the text content of the body, the banner left out,
  as it was.
\<close>

theorem scanPage_highlights_every_dash:
  assumes "flat False (documentBody s)"
    and "bannerIntact s"
    and "dashesOutside False (documentBody s) = k"
  shows "emDashCount (scanPage s) = k \<and>
         highlightsL (bodyChildren (scanPage s)) = highlightsL (bodyChildren s) + k \<and>
         pageTexts (bodyChildren (scanPage s)) = pageTexts (bodyChildren s)"
proof -
  let ?s0 = "s\<lparr>emDashCount := 0\<rparr>"
  let ?s1 = "walkBody ?s0"
  let ?s2 = "if emDashCount ?s1 > 0 then injectSparkleSvg ?s1 else ?s1"
  have sp: "scanPage s = updateWarningBanner ?s2"
    by (simp add: scanPage_def Let_def)
  have "matchedDashes False (documentBody s) = dashesOutside False (documentBody s)"
    using assms(1) by (intro matchedDashes_flat(1)) simp_all
  with assms(3) have m: "matchedDashesL (isMarker (bodyClasses s)) (bodyChildren s) = k"
    by (simp add: documentBody_def)
  have i0: "bannerIntact ?s0"
    using assms(2) by (simp add: bannerIntact_def split: option.splits)
  have f0: "flat False (documentBody ?s0)"
    using assms(1) by (simp add: documentBody_def)
  have i2: "bannerIntact ?s2"
    using walkBody_intact[OF i0 f0] by (simp add: injectSparkleSvg_frame)
  have c: "emDashCount ?s2 = k"
    using walkBody_effect(1)[of ?s0] m by (simp add: injectSparkleSvg_frame)
  have h: "highlightsL (bodyChildren ?s2) = highlightsL (bodyChildren s) + k"
    using walkBody_effect(2)[of ?s0] m by (simp add: injectSparkleSvg_frame)
  have t: "pageTexts (bodyChildren ?s2) = pageTexts (bodyChildren s)"
    using walkBody_effect(3)[of ?s0] by (simp add: injectSparkleSvg_frame)
  show ?thesis
    using updateWarningBanner_page[OF i2] c h t unfolding sp by simp
qed

text \<open>The specification's example: the body text \<open>a\<emdash>b\<emdash>c\<close> gives a counter of 2, two
  highlight elements and the page text \<open>a\<emdash>b\<emdash>c\<close>.  And a scan of the example with its
  banner in place and the paragraph \<open>x\<emdash>y\<close> added: one em-dash outside the highlight
  elements, a counter of 1, one highlight element more, the same page text.\<close>

theorem scanPage_highlights_every_dash_witness:
  "flat False (documentBody (page [Text 1 abc])) \<and> bannerIntact (page [Text 1 abc]) \<and>
   dashesOutside False (documentBody (page [Text 1 abc])) = 2 \<and>
   emDashCount (scanPage (page [Text 1 abc])) = 2 \<and>
   highlightsL (bodyChildren (scanPage (page [Text 1 abc]))) = 2 \<and>
   pageTexts (bodyChildren (scanPage (page [Text 1 abc]))) = [97, 0x2014, 98, 0x2014, 99] \<and>
   flat False (documentBody exampleAdded) \<and> bannerIntact exampleAdded \<and>
   dashesOutside False (documentBody exampleAdded) = 1 \<and>
   warningBanner exampleAdded = Some 107 \<and>
   highlightsL (bodyChildren exampleAdded) = 2 \<and>
   emDashCount (scanPage exampleAdded) = 1 \<and>
   highlightsL (bodyChildren (scanPage exampleAdded)) = 3 \<and>
   pageTexts (bodyChildren (scanPage exampleAdded)) = [97, 0x2014, 98, 0x2014, 99, 120, 0x2014, 121]"
proof -
  have h0: "flat False (documentBody (page [Text 1 abc]))"
    by (simp add: documentBody_def page_def)
  have h1: "bannerIntact (page [Text 1 abc])"
    by (simp add: bannerIntact_def page_def)
  have h2: "dashesOutside False (documentBody (page [Text 1 abc])) = 2"
    by (simp add: documentBody_def page_def abc_def isMarker_def EM_DASH_def)
  have first: "emDashCount (scanPage (page [Text 1 abc])) = 2 \<and>
      highlightsL (bodyChildren (scanPage (page [Text 1 abc]))) = 2 \<and>
      pageTexts (bodyChildren (scanPage (page [Text 1 abc]))) = [97, 0x2014, 98, 0x2014, 99]"
    using scanPage_highlights_every_dash[OF h0 h1 h2] by (simp add: page_def abc_def EM_DASH_def)
  have g0: "flat False (documentBody exampleAdded)"
    by (simp add: documentBody_def exampleAdded_eq isMarker_def bannerClass_def
        highlightClass_def EM_DASH_def)
  have g1: "bannerIntact exampleAdded"
    by (simp add: bannerIntact_def exampleAdded_eq bannerClass_def highlightClass_def
        countClass_def textClass_def)
  have g2: "dashesOutside False (documentBody exampleAdded) = 1"
    by (simp add: documentBody_def exampleAdded_eq isMarker_def bannerClass_def
        highlightClass_def EM_DASH_def)
  have v: "warningBanner exampleAdded = Some 107" "highlightsL (bodyChildren exampleAdded) = 2"
    "pageTexts (bodyChildren exampleAdded) = [97, 0x2014, 98, 0x2014, 99, 120, 0x2014, 121]"
    by (simp_all add: exampleAdded_eq highlightClass_def bannerClass_def)
  show ?thesis
    using h0 h1 h2 first g0 g1 g2 v scanPage_highlights_every_dash[OF g0 g1 g2] by simp
qed

lemma exampleTampered_eq:
  "exampleTampered =
     \<lparr>svgInjected = True, emDashCount = 2, warningBanner = Some 107,
      mutationObserver = Some 115, debounceTimeout = None, historyPatched = True,
      sparkleBgWrites = 1, bodyId = 0, bodyClasses = [],
      bodyChildren =
        [Text 1 [120, 8212, 121],
         Element 107 ''DIV'' [''mdash-warning-banner'']
           [Element 112 ''SPAN'' [''mdash-warning-count'']
              [Element 60 ''SPAN'' [''mdash-highlight''] [Text 61 [122]]]]],
      nextId = 116, timers = [], observing = [115],
      windowListeners =
        [(''popstate'', DebouncedRescan, False), (''hashchange'', DebouncedRescan, False),
         (''pagehide'', Cleanup, True)],
      historyPushState = Wrapper, historyReplaceState = Wrapper, sessionHistory = []\<rparr>"
  unfolding exampleTampered_def tamperedBody_def
  by (simp add: scan_defs life_defs page_def abc_def xy_def)

text \<open>
  C1 as stated fails in three ways.  On the specification's example the scan appends the
  banner to the body, so the text content of the body after the scan is not the text
  content before it.  On a body that holds \<open>x\<emdash>y\<close> in bold inside a highlight element no
  em-dash lies outside the highlight elements, and yet the scan counts one and adds one
  highlight element: the walker looks at the parent of a text node, not at its other
  ancestors.  And on a flat body with the text \<open>x\<emdash>y\<close>, where the page has put a
  highlight element into the count element of the script's banner, one em-dash lies
  outside the marker elements, the scan counts it, and the body holds one highlight
  element before the scan and one after it, not two: the new count replaces the content
  of the count element.
\<close>

theorem scanPage_as_stated_counterexample:
  "textContents (bodyChildren (scanPage (page [Text 1 abc]))) \<noteq>
     textContents (bodyChildren (page [Text 1 abc])) \<and>
   bannerIntact (page nestedBody) \<and> \<not> flat False (documentBody (page nestedBody)) \<and>
   dashesOutside False (documentBody (page nestedBody)) = 0 \<and>
   emDashCount (scanPage (page nestedBody)) = 1 \<and>
   highlightsL (bodyChildren (page nestedBody)) = 1 \<and>
   highlightsL (bodyChildren (scanPage (page nestedBody))) = 2 \<and>
   flat False (documentBody exampleTampered) \<and> \<not> bannerIntact exampleTampered \<and>
   dashesOutside False (documentBody exampleTampered) = 1 \<and>
   emDashCount (scanPage exampleTampered) = 1 \<and>
   highlightsL (bodyChildren exampleTampered) = 1 \<and>
   highlightsL (bodyChildren (scanPage exampleTampered)) = 1"
proof -
  have a: "textContents (bodyChildren (scanPage (page [Text 1 abc]))) \<noteq>
      textContents (bodyChildren (page [Text 1 abc]))"
    by (simp add: scan_defs page_def abc_def)
  have b: "bannerIntact (page nestedBody)"
    "\<not> flat False (documentBody (page nestedBody))"
    "dashesOutside False (documentBody (page nestedBody)) = 0"
    "highlightsL (bodyChildren (page nestedBody)) = 1"
    by (simp_all add: bannerIntact_def documentBody_def page_def nestedBody_def isMarker_def
        highlightClass_def bannerClass_def xy_def)
  have c: "emDashCount (scanPage (page nestedBody)) = 1"
    "highlightsL (bodyChildren (scanPage (page nestedBody))) = 2"
    by (simp_all add: scan_defs page_def nestedBody_def xy_def)
  have d: "flat False (documentBody exampleTampered)"
    "\<not> bannerIntact exampleTampered"
    "dashesOutside False (documentBody exampleTampered) = 1"
    "highlightsL (bodyChildren exampleTampered) = 1"
    by (simp_all add: documentBody_def bannerIntact_def exampleTampered_eq isMarker_def
        countClass_def highlightClass_def bannerClass_def EM_DASH_def)
  have e: "emDashCount (scanPage exampleTampered) = 1"
    "highlightsL (bodyChildren (scanPage exampleTampered)) = 1"
    by (simp_all add: exampleTampered_eq scan_defs)
  show ?thesis
    using a b c d e by simp
qed

text \<open>After the walker no em-dash is left for the walker to match, so a second walk of
  the body matches nothing: it adds no highlight and counts nothing.\<close>

lemma split_parts_plain: "p \<in> set (split t) \<Longrightarrow> EM_DASH \<notin> set p"
proof (induction t arbitrary: p)
  case Nil
  then show ?case by simp
next
  case (Cons c cs)
  obtain q qs where sp: "split cs = q # qs"
    using split_not_Nil[of cs] by (cases "split cs") auto
  with Cons show ?case by (auto split: if_splits)
qed

lemma buildFragment_outside:
  "buildFragment ps n = (fr, n') \<Longrightarrow> \<forall>p \<in> set ps. EM_DASH \<notin> set p \<Longrightarrow> matchedDashesL pm fr = 0"
  by (induction ps arbitrary: n fr n')
     (auto simp: no_dash_count isMarker_def split: prod.splits if_splits)

lemma walk_outside:
  "walk pm x ctx = (ns, ctx') \<Longrightarrow> matchedDashesL pm ns = 0"
  "walks pm xs ctx = (ns, ctx') \<Longrightarrow> matchedDashesL pm ns = 0"
proof (induction pm x ctx and pm xs ctx arbitrary: ns ctx' and ns ctx' rule: walk_walks.induct)
  case (1 pm i t ctx)
  then show ?case
    by (auto simp: highlightTextNode_def no_dash_count split_parts_plain
        dest!: buildFragment_outside[where pm = pm] split: if_splits prod.splits)
next
  case (2 pm i tag cls ch ctx)
  then show ?case by (auto split: prod.splits)
next
  case (3 pm ctx)
  then show ?case by simp
next
  case (4 pm x xs ctx)
  have a: "matchedDashesL pm (ys @ zs) = matchedDashesL pm ys + matchedDashesL pm zs" for ys zs
    by (induction ys) auto
  from 4 show ?case by (fastforce simp: a split: prod.splits)
qed

lemma walkBody_twice:
  "emDashCount (walkBody (walkBody s)) = emDashCount (walkBody s)"
  "highlightsL (bodyChildren (walkBody (walkBody s))) = highlightsL (bodyChildren (walkBody s))"
proof -
  have "matchedDashesL (isMarker (bodyClasses (walkBody s))) (bodyChildren (walkBody s)) = 0"
    by (auto simp: walkBody_def walkTextNodes_def documentBody_def skipTags_def
        dest: walk_outside split: prod.splits)
  then show "emDashCount (walkBody (walkBody s)) = emDashCount (walkBody s)"
    "highlightsL (bodyChildren (walkBody (walkBody s))) = highlightsL (bodyChildren (walkBody s))"
    by (simp_all add: walkBody_effect)
qed

text \<open>
  C3.  A second scan right after the first matches nothing and adds no highlight, but
  it starts from a counter of zero and passes over the em-dashes the first scan wrapped:
  on the example the counter goes from 2 to 0 and the banner is taken away, with both
  highlight elements still in the body.
\<close>

theorem scanPage_twice_loses_count:
  "emDashCount (scanPage (page [Text 1 abc])) = 2 \<and>
   highlightsL (bodyChildren (scanPage (page [Text 1 abc]))) = 2 \<and>
   warningBanner (scanPage (page [Text 1 abc])) = Some 107 \<and>
   emDashCount (scanPage (scanPage (page [Text 1 abc]))) = 0 \<and>
   highlightsL (bodyChildren (scanPage (scanPage (page [Text 1 abc])))) = 2 \<and>
   warningBanner (scanPage (scanPage (page [Text 1 abc]))) = None"
  by (simp add: scan_defs page_def abc_def)

section \<open>The skip list\<close>

lemma walkTextNodes_skips_root:
  "tagName el \<in> set skipTags \<Longrightarrow> walkTextNodes el ctx = (el, ctx)"
  by (simp add: walkTextNodes_def)

text \<open>
  C2.  The walker is stopped by a skip-listed root only.  Under a root that is not
  skip-listed, the text of a \<open>SCRIPT\<close> child is matched like any other: its em-dash is
  counted and the text node is replaced by a highlight span between two text nodes.
\<close>

theorem walkTextNodes_descends_into_script:
  "walkTextNodes (Element 1 ''DIV'' [] [Element 2 ''SCRIPT'' [] [Text 3 xy]]) (0, 10) =
     (Element 1 ''DIV'' []
        [Element 2 ''SCRIPT'' []
           [Text 10 [120], Element 11 ''SPAN'' [highlightClass] [Text 12 [EM_DASH]], Text 13 [121]]],
      1, 14)"
  by (simp add: scan_defs xy_def)

section \<open>A text node without a parent\<close>

text \<open>
  C7.  For a text node with no parent \<open>highlightTextNode\<close> replaces nothing, but it has
  raised the counter already: on the detached text \<open>x\<emdash>y\<close> the counter goes from 0 to 1.
\<close>

theorem highlightTextNode_counts_without_parent:
  "highlightTextNode (Text 3 xy) False (0, 10) = ([Text 3 xy], 1, 14)"
  by (simp add: scan_defs xy_def)

section \<open>The banner follows the counter\<close>

lemma setCount_withoutCount:
  "withoutCount (fst (setCount str n x)) = withoutCount x"
  "withoutCountL (fst (setCountL str n xs)) = withoutCountL xs"
  by (induction str n x and str n xs rule: setCount_setCountL.induct)
     (auto split: prod.splits)

lemma updateCountAt_withoutCount:
  "withoutCount (updateCountAt b str n x) = withoutCount x"
  "withoutCountL (updateCountAtL b str n xs) = withoutCountL xs"
  by (induction b str n x and b str n xs rule: updateCountAt_updateCountAtL.induct)
     (auto simp: setCount_withoutCount)

lemma setCount_found:
  "snd (setCount str n x) = (firstCount x \<noteq> None)"
  "snd (setCountL str n xs) = (firstCountL xs \<noteq> None)"
  by (induction str n x and str n xs rule: setCount_setCountL.induct)
     (auto split: prod.splits option.splits)

lemma setCount_firstCount:
  "firstCount x \<noteq> None \<Longrightarrow> firstCount (fst (setCount str n x)) = Some str"
  "firstCountL xs \<noteq> None \<Longrightarrow> firstCountL (fst (setCountL str n xs)) = Some str"
proof (induction str n x and str n xs rule: setCount_setCountL.induct)
  case (4 str n x xs)
  show ?case
  proof (cases "firstCount x")
    case None
    then have nf: "\<not> snd (setCount str n x)"
      by (simp add: setCount_found)
    from None "4.prems" have "firstCountL xs \<noteq> None" by simp
    with 4 nf None show ?thesis by (auto split: prod.splits)
  next
    case (Some t)
    then have f: "snd (setCount str n x)"
      by (simp add: setCount_found)
    with 4 Some show ?thesis by (auto split: prod.splits)
  qed
qed (auto split: prod.splits)

lemma findNode_updateCountAt:
  "findNode b (updateCountAt b str n x) =
     map_option (\<lambda>el. case el of Text i t \<Rightarrow> Text i t
                   | Element i tag cls ch \<Rightarrow> Element i tag cls (fst (setCountL str n ch)))
       (findNode b x)"
  "findNodeL b (updateCountAtL b str n xs) =
     map_option (\<lambda>el. case el of Text i t \<Rightarrow> Text i t
                   | Element i tag cls ch \<Rightarrow> Element i tag cls (fst (setCountL str n ch)))
       (findNodeL b xs)"
  by (induction b str n x and b str n xs rule: updateCountAt_updateCountAtL.induct)
     (simp_all split: option.splits)

lemma findNode_removeNodes:
  "nid x \<noteq> b \<Longrightarrow> findNode b (removeNode b x) = None"
  "findNodeL b (removeNodes b xs) = None"
  by (induction b x and b xs rule: removeNode_removeNodes.induct) auto

lemma displayedCount_update:
  assumes "0 < emDashCount s" and "displayedCount s \<noteq> None"
  shows "displayedCount (updateWarningBanner s) = Some (numberToString (emDashCount s))"
proof -
  from assms(2) obtain b el where b: "warningBanner s = Some b"
    and el: "findNodeL b (bodyChildren s) = Some el" and fc: "firstCountL (childNodes el) \<noteq> None"
    by (auto simp: displayedCount_def split: option.splits)
  from fc obtain i tag cls ch where e: "el = Element i tag cls ch"
    by (cases el) auto
  show ?thesis
    using assms(1) b el e fc
    by (simp add: displayedCount_def updateWarningBanner_def findNode_updateCountAt
        setCount_firstCount)
qed

lemma firstCount_bannerContent: "firstCountL (bannerContent n k) = Some (numberToString k)"
  by (simp add: bannerContent_def countClass_def textClass_def)

lemma updateWarningBanner_created:
  assumes "0 < emDashCount s" and "warningBanner s = None"
  shows "warningBanner (updateWarningBanner s) = Some (nid (last (bodyChildren (updateWarningBanner s)))) \<and>
         bannerClass \<in> set (classList (last (bodyChildren (updateWarningBanner s)))) \<and>
         firstCountL (childNodes (last (bodyChildren (updateWarningBanner s)))) =
           Some (numberToString (emDashCount s))"
  using assms by (simp add: updateWarningBanner_def Let_def firstCount_bannerContent)

text \<open>
  What holds of \<open>updateWarningBanner\<close> in every state.  After it the script holds a
  banner exactly when the counter is positive, and the counter is what it was.  With a
  positive counter and a banner held, the banner is the same object as before and
  nothing in the body has changed but the content of the count element, which now
  displays the counter if the banner stands in the body.  With a positive counter and no
  banner held, the new banner is the last child of the body and displays the counter.
  With a counter of zero the former banner is no longer in the body.
\<close>

lemma updateWarningBanner_reference:
  "(warningBanner (updateWarningBanner s) \<noteq> None) = (0 < emDashCount (updateWarningBanner s)) \<and>
   emDashCount (updateWarningBanner s) = emDashCount s \<and>
   (0 < emDashCount s \<and> warningBanner s \<noteq> None \<longrightarrow>
      warningBanner (updateWarningBanner s) = warningBanner s \<and>
      withoutCountL (bodyChildren (updateWarningBanner s)) = withoutCountL (bodyChildren s) \<and>
      (displayedCount s \<noteq> None \<longrightarrow>
         displayedCount (updateWarningBanner s) = Some (numberToString (emDashCount s)))) \<and>
   (0 < emDashCount s \<and> warningBanner s = None \<longrightarrow>
      warningBanner (updateWarningBanner s) =
        Some (nid (last (bodyChildren (updateWarningBanner s)))) \<and>
      bannerClass \<in> set (classList (last (bodyChildren (updateWarningBanner s)))) \<and>
      firstCountL (childNodes (last (bodyChildren (updateWarningBanner s)))) =
        Some (numberToString (emDashCount s))) \<and>
   (emDashCount s = 0 \<longrightarrow>
      (\<forall>b. warningBanner s = Some b \<longrightarrow>
         findNodeL b (bodyChildren (updateWarningBanner s)) = None))"
proof -
  have presence: "(warningBanner (updateWarningBanner s) \<noteq> None) = (0 < emDashCount (updateWarningBanner s))"
    and same: "emDashCount (updateWarningBanner s) = emDashCount s"
    by (auto simp: updateWarningBanner_def removeBanner_def Let_def split: option.splits)
  have kept: "warningBanner (updateWarningBanner s) = warningBanner s \<and>
      withoutCountL (bodyChildren (updateWarningBanner s)) = withoutCountL (bodyChildren s)"
    if "0 < emDashCount s" "warningBanner s \<noteq> None"
    using that by (auto simp: updateWarningBanner_def updateCountAt_withoutCount)
  have gone: "findNodeL b (bodyChildren (updateWarningBanner s)) = None"
    if "emDashCount s = 0" "warningBanner s = Some b" for b
    using that by (simp add: updateWarningBanner_def removeBanner_def findNode_removeNodes)
  show ?thesis
    using presence same kept gone displayedCount_update[of s] updateWarningBanner_created[of s]
    by blast
qed

lemma exampleUnbannered_eq:
  "exampleUnbannered =
     \<lparr>svgInjected = True, emDashCount = 2, warningBanner = Some 107,
      mutationObserver = Some 115, debounceTimeout = None, historyPatched = True,
      sparkleBgWrites = 1, bodyId = 0, bodyClasses = [],
      bodyChildren =
        [Text 100 [97],
         Element 101 ''SPAN'' [''mdash-highlight''] [Text 102 [8212]],
         Text 103 [98],
         Element 104 ''SPAN'' [''mdash-highlight''] [Text 105 [8212]],
         Text 106 [99],
         Element 50 ''P'' [] [Text 51 [120, 8212, 121]]],
      nextId = 116, timers = [], observing = [115],
      windowListeners =
        [(''popstate'', DebouncedRescan, False), (''hashchange'', DebouncedRescan, False),
         (''pagehide'', Cleanup, True)],
      historyPushState = Wrapper, historyReplaceState = Wrapper, sessionHistory = []\<rparr>"
  unfolding exampleUnbannered_def
  by (simp add: exampleAdded_eq)

lemma exampleUnbannered_handled:
  "step (Mutations [\<lparr>removedNodes = [Element 107 ''DIV'' [bannerClass] (bannerContent 108 2)],
                     addedNodes = [InBody 50]\<rparr>]) exampleUnbannered =
     \<lparr>svgInjected = True, emDashCount = 3, warningBanner = Some 107,
      mutationObserver = Some 115, debounceTimeout = None, historyPatched = True,
      sparkleBgWrites = 1, bodyId = 0, bodyClasses = [],
      bodyChildren =
        [Text 100 [97],
         Element 101 ''SPAN'' [''mdash-highlight''] [Text 102 [8212]],
         Text 103 [98],
         Element 104 ''SPAN'' [''mdash-highlight''] [Text 105 [8212]],
         Text 106 [99],
         Element 50 ''P'' []
           [Text 116 [120],
            Element 117 ''SPAN'' [''mdash-highlight''] [Text 118 [8212]],
            Text 119 [121]]],
      nextId = 121, timers = [], observing = [115],
      windowListeners =
        [(''popstate'', DebouncedRescan, False), (''hashchange'', DebouncedRescan, False),
         (''pagehide'', Cleanup, True)],
      historyPushState = Wrapper, historyReplaceState = Wrapper, sessionHistory = []\<rparr>"
  by (simp add: exampleUnbannered_eq handler_defs scan_defs)

text \<open>
  C4.  A positive counter does not mean that the banner element is in the document.  On
  the example after start-up (counter 2, banner element 107) the page takes the banner
  out of the body and adds a paragraph \<open>x\<emdash>y\<close>.  The handler passes over the removed
  banner and counts the new em-dash; \<open>updateWarningBanner\<close> finds \<open>warningBanner\<close> set
  and writes the count into the element that is no longer in the document.  After the
  call the counter is 3, the script still holds element 107, and the body holds no
  banner element.  The same for a call of \<open>updateWarningBanner\<close> alone in that state: a
  counter of 2 and no banner element in the body.
\<close>

theorem updateWarningBanner_banner_not_in_document:
  "emDashCount exampleUnbannered = 2 \<and> warningBanner exampleUnbannered = Some 107 \<and>
   bannersL (bodyChildren exampleUnbannered) = 0 \<and>
   emDashCount
     (step (Mutations [\<lparr>removedNodes = [Element 107 ''DIV'' [bannerClass] (bannerContent 108 2)],
                        addedNodes = [InBody 50]\<rparr>]) exampleUnbannered) = 3 \<and>
   warningBanner
     (step (Mutations [\<lparr>removedNodes = [Element 107 ''DIV'' [bannerClass] (bannerContent 108 2)],
                        addedNodes = [InBody 50]\<rparr>]) exampleUnbannered) = Some 107 \<and>
   bannersL (bodyChildren
     (step (Mutations [\<lparr>removedNodes = [Element 107 ''DIV'' [bannerClass] (bannerContent 108 2)],
                        addedNodes = [InBody 50]\<rparr>]) exampleUnbannered)) = 0 \<and>
   findNodeL 107 (bodyChildren
     (step (Mutations [\<lparr>removedNodes = [Element 107 ''DIV'' [bannerClass] (bannerContent 108 2)],
                        addedNodes = [InBody 50]\<rparr>]) exampleUnbannered)) = None \<and>
   emDashCount (updateWarningBanner exampleUnbannered) = 2 \<and>
   warningBanner (updateWarningBanner exampleUnbannered) = Some 107 \<and>
   bannersL (bodyChildren (updateWarningBanner exampleUnbannered)) = 0"
proof -
  have a: "emDashCount exampleUnbannered = 2" "warningBanner exampleUnbannered = Some 107"
    "bannersL (bodyChildren exampleUnbannered) = 0"
    by (simp_all add: exampleUnbannered_eq bannerClass_def)
  have b: "emDashCount (updateWarningBanner exampleUnbannered) = 2"
    "warningBanner (updateWarningBanner exampleUnbannered) = Some 107"
    "bannersL (bodyChildren (updateWarningBanner exampleUnbannered)) = 0"
    by (simp_all add: exampleUnbannered_eq updateWarningBanner_def bannerClass_def)
  have c: "emDashCount
     (step (Mutations [\<lparr>removedNodes = [Element 107 ''DIV'' [bannerClass] (bannerContent 108 2)],
                        addedNodes = [InBody 50]\<rparr>]) exampleUnbannered) = 3"
    "warningBanner
     (step (Mutations [\<lparr>removedNodes = [Element 107 ''DIV'' [bannerClass] (bannerContent 108 2)],
                        addedNodes = [InBody 50]\<rparr>]) exampleUnbannered) = Some 107"
    "bannersL (bodyChildren
     (step (Mutations [\<lparr>removedNodes = [Element 107 ''DIV'' [bannerClass] (bannerContent 108 2)],
                        addedNodes = [InBody 50]\<rparr>]) exampleUnbannered)) = 0"
    "findNodeL 107 (bodyChildren
     (step (Mutations [\<lparr>removedNodes = [Element 107 ''DIV'' [bannerClass] (bannerContent 108 2)],
                        addedNodes = [InBody 50]\<rparr>]) exampleUnbannered)) = None"
    unfolding exampleUnbannered_handled by (simp_all add: bannerClass_def)
  show ?thesis
    using a b c by blast
qed

text \<open>Where the banner stands in the body the update is as the specification says.  On
  the running example the counter is 5 and the banner is element 107: after the update
  it is still element 107 and displays \<open>5\<close>.  On a page without a banner and a counter
  of 3 the update appends the banner, which displays \<open>3\<close>.  With the counter of the
  running example at 0 the update takes element 107 out of the body.\<close>

lemma updateWarningBanner_reference_example:
  "0 < emDashCount exampleRunning \<and> warningBanner exampleRunning = Some 107 \<and>
   displayedCount exampleRunning = Some [50] \<and>
   warningBanner (updateWarningBanner exampleRunning) = Some 107 \<and>
   displayedCount (updateWarningBanner exampleRunning) = Some [53] \<and>
   warningBanner ((page [Text 1 abc])\<lparr>emDashCount := 3\<rparr>) = None \<and>
   warningBanner (updateWarningBanner ((page [Text 1 abc])\<lparr>emDashCount := 3\<rparr>)) = Some 100 \<and>
   firstCountL (childNodes (last (bodyChildren
     (updateWarningBanner ((page [Text 1 abc])\<lparr>emDashCount := 3\<rparr>))))) = Some [51] \<and>
   warningBanner (exampleRunning\<lparr>emDashCount := 0\<rparr>) = Some 107 \<and>
   warningBanner (updateWarningBanner (exampleRunning\<lparr>emDashCount := 0\<rparr>)) = None \<and>
   findNodeL 107 (bodyChildren (updateWarningBanner (exampleRunning\<lparr>emDashCount := 0\<rparr>))) = None"
proof -
  have h: "0 < emDashCount exampleRunning" "warningBanner exampleRunning = Some 107"
    "displayedCount exampleRunning = Some [50]" "numberToString (emDashCount exampleRunning) = [53]"
    by (simp_all add: exampleRunning_eq displayedCount_def countClass_def numberToString.simps)
  have upd: "warningBanner (updateWarningBanner exampleRunning) = Some 107 \<and>
      displayedCount (updateWarningBanner exampleRunning) = Some [53]"
    using h updateWarningBanner_reference[of exampleRunning] by simp
  have c: "0 < emDashCount ((page [Text 1 abc])\<lparr>emDashCount := 3\<rparr>)"
    "warningBanner ((page [Text 1 abc])\<lparr>emDashCount := 3\<rparr>) = None"
    "numberToString (emDashCount ((page [Text 1 abc])\<lparr>emDashCount := 3\<rparr>)) = [51]"
    by (simp_all add: page_def numberToString.simps)
  have n: "nid (last (bodyChildren (updateWarningBanner ((page [Text 1 abc])\<lparr>emDashCount := 3\<rparr>)))) = 100"
    by (simp add: page_def updateWarningBanner_def)
  have new: "warningBanner (updateWarningBanner ((page [Text 1 abc])\<lparr>emDashCount := 3\<rparr>)) = Some 100 \<and>
      firstCountL (childNodes (last (bodyChildren
        (updateWarningBanner ((page [Text 1 abc])\<lparr>emDashCount := 3\<rparr>))))) = Some [51]"
    using c n updateWarningBanner_reference[of "(page [Text 1 abc])\<lparr>emDashCount := 3\<rparr>"] by simp
  have z: "emDashCount (exampleRunning\<lparr>emDashCount := 0\<rparr>) = 0"
    "warningBanner (exampleRunning\<lparr>emDashCount := 0\<rparr>) = Some 107"
    by (simp_all add: exampleRunning_eq)
  have gone: "warningBanner (updateWarningBanner (exampleRunning\<lparr>emDashCount := 0\<rparr>)) = None \<and>
      findNodeL 107 (bodyChildren (updateWarningBanner (exampleRunning\<lparr>emDashCount := 0\<rparr>))) = None"
    using z updateWarningBanner_reference[of "exampleRunning\<lparr>emDashCount := 0\<rparr>"] by auto
  show ?thesis
    using h upd c new z gone by simp
qed

section \<open>Teardown\<close>

lemma cleanup_fields:
  "debounceTimeout (cleanup s) = None"
  "mutationObserver (cleanup s) = None"
  "historyPatched (cleanup s) = False"
  "warningBanner (cleanup s) = None"
  "windowListeners (cleanup s) =
     filter (\<lambda>(t, c, onc). \<not> (t = ''hashchange'' \<and> c = DebouncedRescan))
       (filter (\<lambda>(t, c, onc). \<not> (t = ''popstate'' \<and> c = DebouncedRescan)) (windowListeners s))"
  by (simp_all add: cleanup_def cancelDebounced_def removeEventListener_def removeBanner_def Let_def
      split: option.splits)

lemma cleanup_host:
  "timers (cleanup s) =
     (case debounceTimeout s of None \<Rightarrow> timers s | Some h \<Rightarrow> removeAll h (timers s))"
  "observing (cleanup s) =
     (case mutationObserver s of None \<Rightarrow> observing s | Some h \<Rightarrow> removeAll h (observing s))"
  "historyPushState (cleanup s) = (if historyPatched s then BoundOriginal else historyPushState s)"
  "historyReplaceState (cleanup s) =
     (if historyPatched s then BoundOriginal else historyReplaceState s)"
  "bodyChildren (cleanup s) =
     (case warningBanner s of None \<Rightarrow> bodyChildren s | Some b \<Rightarrow> removeNodes b (bodyChildren s))"
  by (simp_all add: cleanup_def cancelDebounced_def removeEventListener_def removeBanner_def Let_def
      split: option.splits)

lemma cleanup_fixed:
  assumes "debounceTimeout s = None" "mutationObserver s = None" "\<not> historyPatched s"
    "warningBanner s = None"
    "filter (\<lambda>(t, c, onc). \<not> (t = ''popstate'' \<and> c = DebouncedRescan)) (windowListeners s) =
       windowListeners s"
    "filter (\<lambda>(t, c, onc). \<not> (t = ''hashchange'' \<and> c = DebouncedRescan)) (windowListeners s) =
       windowListeners s"
  shows "cleanup s = s"
  using assms
  by (simp add: cleanup_def cancelDebounced_def removeEventListener_def removeBanner_def Let_def)

text \<open>
  C10.  \<open>cleanup\<close> is idempotent: a second call right after the first changes nothing,
  in whatever state the first one ran.
\<close>

theorem cleanup_idempotent: "cleanup (cleanup s) = cleanup s"
  by (rule cleanup_fixed) (auto simp: cleanup_fields intro!: filter_cong)

text \<open>\<open>cleanup\<close> twice on the running example.\<close>

theorem cleanup_idempotent_witness:
  "timers exampleRunning = [116] \<and> cleanup (cleanup exampleRunning) = cleanup exampleRunning"
  using cleanup_idempotent[of exampleRunning] by (simp add: exampleRunning_eq)

section \<open>Host and script stay consistent\<close>

lemma hostConsistent_hostPart:
  "hostPart s' = hostPart s \<Longrightarrow> hostConsistent s' = hostConsistent s"
  by (simp add: hostPart_def hostConsistent_def)

lemma hostPart_scan:
  "hostPart (walkBody s) = hostPart s"
  "hostPart (injectSparkleSvg s) = hostPart s"
  "hostPart (removeBanner s) = hostPart s"
  "hostPart (updateWarningBanner s) = hostPart s"
  by (simp_all add: hostPart_def walkBody_def injectSparkleSvg_def removeBanner_def
      updateWarningBanner_def Let_def split: prod.splits option.splits)

lemma hostPart_scanPage: "hostPart (scanPage s) = hostPart (s\<lparr>emDashCount := 0\<rparr>)"
  by (simp add: scanPage_def Let_def hostPart_scan)

lemma hostConsistent_scanPage: "hostConsistent (scanPage s) = hostConsistent s"
  by (rule hostConsistent_hostPart) (simp add: hostPart_scanPage, simp add: hostPart_def)

lemma hostPart_addedElement: "hostPart (fst (addedElement el r sb)) = hostPart (fst sb)"
  by (cases sb) (simp add: addedElement_def hostPart_def split: option.splits prod.splits)

lemma hostPart_addedText: "hostPart (fst (addedText el r sb)) = hostPart (fst sb)"
  by (cases sb) (simp add: addedText_def hostPart_def split: option.splits prod.splits)

lemma hostPart_addedNode: "hostPart (fst (addedNode r sb)) = hostPart (fst sb)"
  unfolding addedNode_def Let_def
  by (simp add: hostPart_addedElement hostPart_addedText
      split: noderef.splits node.splits option.splits)

lemma hostPart_fold_addedNode: "hostPart (fst (fold addedNode rs sb)) = hostPart (fst sb)"
  by (induction rs arbitrary: sb) (simp_all add: hostPart_addedNode)

lemma hostPart_mutationStep: "hostPart (fst (mutationStep m acc)) = hostPart (fst acc)"
proof -
  obtain s u f where acc: "acc = (s, u, f)" by (cases acc) auto
  obtain s' u' where r: "fold addedNode (addedNodes m) (s, u) = (s', u')"
    by (cases "fold addedNode (addedNodes m) (s, u)") auto
  have "hostPart s' = hostPart s"
    using hostPart_fold_addedNode[of "addedNodes m" "(s, u)"] r by simp
  then show ?thesis
    using acc r by (simp add: mutationStep_def)
qed

lemma hostPart_fold_mutationStep:
  "hostPart (fst (fold mutationStep ms acc)) = hostPart (fst acc)"
  by (induction ms arbitrary: acc) (simp_all add: hostPart_mutationStep)

lemma hostConsistent_page: "hostConsistent (page ch)"
  by (simp add: hostConsistent_def page_def)

lemma hostConsistent_debouncedRescan: "hostConsistent s \<Longrightarrow> hostConsistent (debouncedRescan s)"
  by (auto simp: hostConsistent_def debouncedRescan_def Let_def split: option.splits)

lemma hostConsistent_cleanup: "hostConsistent s \<Longrightarrow> hostConsistent (cleanup s)"
  unfolding hostConsistent_def
  by (auto simp: cleanup_host cleanup_fields list_all_iff split: option.splits if_splits)

lemma addEventListener_fields:
  "timers (addEventListener ty cb onc s) = timers s"
  "debounceTimeout (addEventListener ty cb onc s) = debounceTimeout s"
  "observing (addEventListener ty cb onc s) = observing s"
  "mutationObserver (addEventListener ty cb onc s) = mutationObserver s"
  "historyPatched (addEventListener ty cb onc s) = historyPatched s"
  "historyPushState (addEventListener ty cb onc s) = historyPushState s"
  "historyReplaceState (addEventListener ty cb onc s) = historyReplaceState s"
  "set (windowListeners (addEventListener ty cb onc s)) \<subseteq> insert (ty, cb, onc) (set (windowListeners s))"
  by (auto simp: addEventListener_def)

lemma hostConsistent_addEventListener:
  "hostConsistent s \<Longrightarrow> (if cb = DebouncedRescan then ty = ''popstate'' \<or> ty = ''hashchange'' else ty = ''pagehide'')
    \<Longrightarrow> hostConsistent (addEventListener ty cb onc s)"
  unfolding hostConsistent_def addEventListener_fields list_all_iff
  using addEventListener_fields(8)[of ty cb onc s] by auto

lemma hostConsistent_observeChanges: "hostConsistent s \<Longrightarrow> hostConsistent (observeChanges s)"
proof -
  assume h: "hostConsistent s"
  let ?s1 = "case mutationObserver s of Some h \<Rightarrow> s\<lparr>observing := removeAll h (observing s)\<rparr> | None \<Rightarrow> s"
  let ?s2 = "?s1\<lparr>mutationObserver := Some (nextId ?s1), observing := observing ?s1 @ [nextId ?s1],
      nextId := Suc (nextId ?s1)\<rparr>"
  have h2: "hostConsistent ?s2"
    using h by (auto simp: hostConsistent_def split: option.splits)
  let ?s4 = "addEventListener ''hashchange'' DebouncedRescan False
      (addEventListener ''popstate'' DebouncedRescan False ?s2)"
  have h4: "hostConsistent ?s4"
    using h2 by (intro hostConsistent_addEventListener) simp_all
  let ?s5 = "if \<not> historyPatched ?s4
      then ?s4\<lparr>historyPushState := Wrapper, historyReplaceState := Wrapper, historyPatched := True\<rparr>
      else ?s4"
  have h5: "hostConsistent ?s5"
    using h4 by (simp add: hostConsistent_def)
  have "observeChanges s = addEventListener ''pagehide'' Cleanup True ?s5"
    by (simp add: observeChanges_def Let_def)
  then show ?thesis
    using h5 by (simp add: hostConsistent_addEventListener)
qed

lemma hostConsistent_onMutations: "hostConsistent s \<Longrightarrow> hostConsistent (onMutations ms s)"
proof -
  assume h: "hostConsistent s"
  obtain s' u f where r: "fold mutationStep ms (s, False, False) = (s', u, f)"
    by (cases "fold mutationStep ms (s, False, False)") auto
  have "hostPart s' = hostPart s"
    using hostPart_fold_mutationStep[of ms "(s, False, False)"] r by simp
  then have h': "hostConsistent s'"
    using h hostConsistent_hostPart[of s' s] by simp
  show ?thesis
    using r h' hostConsistent_debouncedRescan[OF h']
      hostConsistent_hostPart[OF hostPart_scan(4), of s']
    by (simp add: onMutations_def)
qed

lemma hostConsistent_fold_const:
  "(\<And>s. P s \<Longrightarrow> P (f s)) \<Longrightarrow> P s \<Longrightarrow> P (fold (\<lambda>h. f) hs s)"
  by (induction hs arbitrary: s) auto

lemma hostConsistent_timerFires: "hostConsistent s \<Longrightarrow> hostConsistent (timerFires h s)"
proof (cases "h \<in> set (timers s)")
  case True
  assume hc: "hostConsistent s"
  with True have "hostConsistent (s\<lparr>timers := removeAll h (timers s), debounceTimeout := None\<rparr>)"
    by (auto simp: hostConsistent_def split: option.splits)
  with True show ?thesis by (simp add: timerFires_def hostConsistent_scanPage)
next
  case False
  assume "hostConsistent s"
  with False show ?thesis by (simp add: timerFires_def)
qed

lemma hostConsistent_dispatchTo: "hostConsistent s \<Longrightarrow> hostConsistent (dispatchTo ty l s)"
proof -
  assume h: "hostConsistent s"
  have r: "hostConsistent (s\<lparr>windowListeners := removeAll l (windowListeners s)\<rparr>)"
    using h by (auto simp: hostConsistent_def list_all_iff)
  show ?thesis
    using h r hostConsistent_debouncedRescan hostConsistent_cleanup
    by (auto simp: dispatchTo_def invoke_def split: prod.splits callback.splits)
qed

lemma hostConsistent_dispatch_fold:
  "hostConsistent s \<Longrightarrow> hostConsistent (fold (dispatchTo ty) ls s)"
  by (induction ls arbitrary: s) (auto simp: hostConsistent_dispatchTo)

lemma hostConsistent_native:
  "hostConsistent (nativePushState e s) = hostConsistent s"
  "hostConsistent (nativeReplaceState e s) = hostConsistent s"
  by (simp_all add: hostConsistent_def nativePushState_def nativeReplaceState_def)

lemma hostConsistent_step: "hostConsistent s \<Longrightarrow> hostConsistent (step e s)"
proof (cases e)
  case (Mutations ms)
  assume "hostConsistent s"
  then show ?thesis
    unfolding Mutations step.simps deliverMutations_def
    by (rule hostConsistent_fold_const[rotated]) (rule hostConsistent_onMutations)
next
  case (TimerFires h)
  assume "hostConsistent s"
  then show ?thesis using TimerFires by (simp add: hostConsistent_timerFires)
next
  case (WindowEvent ty)
  assume "hostConsistent s"
  then show ?thesis using WindowEvent by (simp add: dispatchEvent_def hostConsistent_dispatch_fold)
next
  case (PushState x)
  assume "hostConsistent s"
  then show ?thesis using PushState
    by (auto simp: callPushState_def hostConsistent_native hostConsistent_debouncedRescan split: histfn.splits)
next
  case (ReplaceState x)
  assume "hostConsistent s"
  then show ?thesis using ReplaceState
    by (auto simp: callReplaceState_def hostConsistent_native hostConsistent_debouncedRescan split: histfn.splits)
qed

lemma hostConsistent_run: "hostConsistent (run es (startup (page ch)))"
proof -
  have "hostConsistent s \<Longrightarrow> hostConsistent (fold step es s)" for s
    by (induction es arbitrary: s) (auto simp: hostConsistent_step)
  then show ?thesis
    unfolding run_def startup_def
    by (simp add: hostConsistent_observeChanges hostConsistent_scanPage hostConsistent_page)
qed

section \<open>After the teardown\<close>

lemma cleanup_tornDown: "hostConsistent s \<Longrightarrow> tornDown (cleanup s)"
  unfolding tornDown_def hostConsistent_def
  by (auto simp: cleanup_host cleanup_fields list_all_iff split: option.splits if_splits)

lemma dispatch_fold_none:
  "list_all (\<lambda>(t, c, onc). t \<noteq> ty) ls \<Longrightarrow> fold (dispatchTo ty) ls s = s"
  by (induction ls arbitrary: s) (auto simp: dispatchTo_def)

lemma tornDown_quiet: "tornDown s \<Longrightarrow> quiet e \<Longrightarrow> step e s = s"
proof (cases e)
  case (WindowEvent ty)
  assume "tornDown s" "quiet e"
  with WindowEvent have "list_all (\<lambda>(t, c, onc). t \<noteq> ty) (windowListeners s)"
    by (auto simp: tornDown_def quiet_def list_all_iff)
  then show ?thesis
    using WindowEvent by (simp add: dispatchEvent_def dispatch_fold_none)
qed (auto simp: tornDown_def quiet_def deliverMutations_def timerFires_def)

lemma tornDown_run: "tornDown s \<Longrightarrow> list_all quiet es \<Longrightarrow> run es s = s"
  unfolding run_def by (induction es) (auto simp: tornDown_quiet)

lemma tornDown_history:
  "tornDown s \<Longrightarrow>
     callPushState e s = nativePushState e s \<and> callReplaceState e s = nativeReplaceState e s"
  by (auto simp: tornDown_def callPushState_def callReplaceState_def split: histfn.splits)

text \<open>
  C8.  In a state where host and script are consistent (every state the script reaches),
  after \<open>cleanup\<close> no timer is pending, no observer is subscribed, no listener with the
  debounced rescan is left on \<open>window\<close>, the entry points of the history object are the
  bound originals exactly when they had been patched (and untouched otherwise), the banner
  is gone from the script and from the body; no mutation batch, timer or navigation event
  changes anything any more, and \<open>pushState\<close> and \<open>replaceState\<close> do what the host's own
  methods do.
\<close>

theorem cleanup_tears_down:
  assumes "hostConsistent s"
  shows "debounceTimeout (cleanup s) = None \<and> timers (cleanup s) = [] \<and>
         mutationObserver (cleanup s) = None \<and> observing (cleanup s) = [] \<and>
         \<not> list_ex (\<lambda>(t, c, onc). c = DebouncedRescan) (windowListeners (cleanup s)) \<and>
         historyPushState (cleanup s) =
           (if historyPatched s then BoundOriginal else historyPushState s) \<and>
         historyReplaceState (cleanup s) =
           (if historyPatched s then BoundOriginal else historyReplaceState s) \<and>
         warningBanner (cleanup s) = None \<and>
         (\<forall>b. warningBanner s = Some b \<longrightarrow> findNodeL b (bodyChildren (cleanup s)) = None) \<and>
         (\<forall>es. list_all quiet es \<longrightarrow> run es (cleanup s) = cleanup s) \<and>
         (\<forall>e. callPushState e (cleanup s) = nativePushState e (cleanup s)) \<and>
         (\<forall>e. callReplaceState e (cleanup s) = nativeReplaceState e (cleanup s))"
proof -
  have td: "tornDown (cleanup s)"
    using assms by (rule cleanup_tornDown)
  have l: "\<not> list_ex (\<lambda>(t, c, onc). c = DebouncedRescan) (windowListeners (cleanup s))"
    using assms unfolding hostConsistent_def
    by (auto simp: cleanup_fields list_all_iff list_ex_iff split: if_splits)
  have b: "findNodeL b (bodyChildren (cleanup s)) = None" if "warningBanner s = Some b" for b
    using that by (simp add: cleanup_host findNode_removeNodes)
  show ?thesis
    using td l b tornDown_run[OF td] tornDown_history[OF td]
    by (simp add: cleanup_fields cleanup_host tornDown_def)
qed

lemma exampleRunning_cleanup:
  "cleanup exampleRunning =
     \<lparr>svgInjected = True, emDashCount = 5, warningBanner = None,
      mutationObserver = None, debounceTimeout = None, historyPatched = False,
      sparkleBgWrites = 1, bodyId = 0, bodyClasses = [],
      bodyChildren =
        [Text 100 [97],
         Element 101 ''SPAN'' [''mdash-highlight''] [Text 102 [8212]],
         Text 103 [98],
         Element 104 ''SPAN'' [''mdash-highlight''] [Text 105 [8212]],
         Text 106 [99]],
      nextId = 117, timers = [], observing = [],
      windowListeners = [(''pagehide'', Cleanup, True)],
      historyPushState = BoundOriginal, historyReplaceState = BoundOriginal,
      sessionHistory = []\<rparr>"
  by (simp add: exampleRunning_eq cleanup_def cancelDebounced_def removeEventListener_def
      removeBanner_def)

text \<open>The running example has a timer pending, an observer subscribed and the history
  object patched; after \<open>cleanup\<close> a batch that removes a highlight and adds text, the old
  timer and both navigation events leave the state as it is.\<close>

theorem cleanup_tears_down_witness:
  "hostConsistent exampleRunning \<and>
   timers exampleRunning = [116] \<and> observing exampleRunning = [115] \<and>
   historyPushState exampleRunning = Wrapper \<and>
   timers (cleanup exampleRunning) = [] \<and> observing (cleanup exampleRunning) = [] \<and>
   historyPushState (cleanup exampleRunning) = BoundOriginal \<and>
   run [Mutations [\<lparr>removedNodes = [Element 101 ''SPAN'' [highlightClass] [Text 102 [EM_DASH]]],
                     addedNodes = [Detached (Text 7 xy)]\<rparr>],
        TimerFires 116, WindowEvent ''popstate'', WindowEvent ''hashchange'']
     (cleanup exampleRunning) = cleanup exampleRunning \<and>
   callPushState 1 (cleanup exampleRunning) = nativePushState 1 (cleanup exampleRunning)"
proof -
  have h: "hostConsistent exampleRunning"
    by (simp add: exampleRunning_eq hostConsistent_def)
  have q: "list_all quiet
      [Mutations [\<lparr>removedNodes = [Element 101 ''SPAN'' [highlightClass] [Text 102 [EM_DASH]]],
                   addedNodes = [Detached (Text 7 xy)]\<rparr>],
       TimerFires 116, WindowEvent ''popstate'', WindowEvent ''hashchange'']"
    by (simp add: quiet_def)
  have v: "timers exampleRunning = [116]" "observing exampleRunning = [115]"
    "historyPushState exampleRunning = Wrapper" "historyPatched exampleRunning"
    by (simp_all add: exampleRunning_eq)
  show ?thesis
    using h q v cleanup_tears_down[OF h] by simp
qed

section \<open>The mutation handler\<close>







lemma findNode_nid:
  "findNode i x = Some y \<Longrightarrow> nid y = i"
  "findNodeL i xs = Some y \<Longrightarrow> nid y = i"
  by (induction i x and i xs rule: findNode_findNodeL.induct)
     (auto split: if_splits option.splits)













lemma nid_removeNode [simp]: "nid (removeNode b x) = nid x"
  by (cases x) auto




lemma nid_updateCountAt [simp]: "nid (updateCountAt b str n x) = nid x"
  by (cases x) auto














section \<open>The background resource\<close>

lemma injectSparkleSvg_once:
  "sparkleBgWrites (injectSparkleSvg (injectSparkleSvg s)) = sparkleBgWrites (injectSparkleSvg s)"
  by (simp add: injectSparkleSvg_def)

text \<open>
  C5.  \<open>injectSparkleSvg\<close> is called by \<open>scanPage\<close> only.  On a page without em-dashes
  the initial scan installs nothing; when the page then adds \<open><p>x\<emdash>y</p>\<close>, the handler
  finds the first match of the page's lifetime, highlights it and shows the banner, and
  the background resource is still not installed.
\<close>

theorem first_match_by_mutation_installs_nothing:
  "emDashCount exampleLate = 0 \<and> svgInjected exampleLate = False \<and>
   emDashCount (step (Mutations [\<lparr>removedNodes = [], addedNodes = [InBody 50]\<rparr>]) exampleLate) = 1 \<and>
   highlightsL (bodyChildren
     (step (Mutations [\<lparr>removedNodes = [], addedNodes = [InBody 50]\<rparr>]) exampleLate)) = 1 \<and>
   warningBanner (step (Mutations [\<lparr>removedNodes = [], addedNodes = [InBody 50]\<rparr>]) exampleLate) =
     Some 105 \<and>
   svgInjected (step (Mutations [\<lparr>removedNodes = [], addedNodes = [InBody 50]\<rparr>]) exampleLate) = False \<and>
   sparkleBgWrites (step (Mutations [\<lparr>removedNodes = [], addedNodes = [InBody 50]\<rparr>]) exampleLate) = 0"
  by (simp add: exampleLate_eq handler_defs scan_defs)

section \<open>The startup grace period\<close>

text \<open>
  C9 as stated fails: the content script has no grace period.  The page takes the first
  highlight span out right after start-up; the batch that reports it sets the debounce
  timer, and when the timer fires \<open>scanPage\<close> runs (it resets the counter, here from 2
  to 0).
\<close>

theorem rescan_right_after_startup_counterexample:
  "emDashCount exampleRemoved = 2 \<and> debounceTimeout exampleRemoved = None \<and>
   debounceTimeout
     (run [Mutations [\<lparr>removedNodes = [Element 101 ''SPAN'' [highlightClass] [Text 102 [EM_DASH]]],
                      addedNodes = []\<rparr>]]
        exampleRemoved) = Some 116 \<and>
   emDashCount
     (run [Mutations [\<lparr>removedNodes = [Element 101 ''SPAN'' [highlightClass] [Text 102 [EM_DASH]]],
                      addedNodes = []\<rparr>],
           TimerFires 116]
        exampleRemoved) = 0"
  unfolding exampleRemoved_def
  by (simp add: run_def handler_defs scan_defs life_defs timerFires_def page_def abc_def)

lemma serverStep_clock: "clock s \<le> clock (serverStep e s)"
  by (cases e)
     (auto simp: notifyClients_def elapse_def fireGrace_def fireNotify_def notifyNow_def Let_def)

lemma serverStep_inGrace: "inGrace s \<Longrightarrow> inGrace (serverStep e s)"
proof (cases "clock (serverStep e s) < 1000")
  case False
  then show ?thesis by (simp add: inGrace_def)
next
  case True
  assume i: "inGrace s"
  from True serverStep_clock[of s e] have "clock s < 1000" by simp
  with i have g: "startupGrace s" "graceTimer s = Some 1000" "reloadsSent s = 0"
    by (simp_all add: inGrace_def)
  show ?thesis
  proof (cases e)
    case (Elapse d)
    with True have t: "clock s + d < 1000" by (simp add: elapse_def Let_def)
    then have nd: "\<not> due (graceTimer s) (clock s + d)" using g by (simp add: due_def)
    show ?thesis
      using Elapse g t nd
      by (simp add: inGrace_def elapse_def Let_def fireNotify_def notifyNow_def)
  qed (use g in \<open>auto simp: inGrace_def notifyClients_def\<close>)
qed

lemma serverRun_inGrace: "inGrace s \<Longrightarrow> inGrace (serverRun es s)"
  unfolding serverRun_def by (induction es arbitrary: s) (auto simp: serverStep_inGrace)

text \<open>
  C9 (as amended).  The grace period is the development server's: as long as less than
  1000 ms have passed since it started, whatever files changed and whichever clients
  connected, \<open>startupGrace\<close> is still set and no reload message has been sent to any client.
\<close>

theorem startup_grace_suppresses_reloads:
  assumes "clock (serverRun es serverStart) < 1000"
  shows "startupGrace (serverRun es serverStart) \<and> reloadsSent (serverRun es serverStart) = 0"
proof -
  have "inGrace serverStart"
    by (simp add: inGrace_def serverStart_def)
  then have "inGrace (serverRun es serverStart)"
    by (rule serverRun_inGrace)
  with assms show ?thesis by (simp add: inGrace_def)
qed

lemmas server_defs = serverRun_def serverStart_def notifyClients_def elapse_def fireGrace_def
  fireNotify_def notifyNow_def due_def Let_def

text \<open>A client connects and two file changes are debounced within the first 700 ms: the
  notifier fires once, at 600 ms, and sends nothing.\<close>

theorem startup_grace_suppresses_reloads_witness:
  "clock (serverRun [Connect, FileChanged, Elapse 300, FileChanged, Elapse 400] serverStart) < 1000 \<and>
   clients (serverRun [Connect, FileChanged, Elapse 300, FileChanged, Elapse 400] serverStart) = [True] \<and>
   reloadsSent (serverRun [Connect, FileChanged, Elapse 300, FileChanged, Elapse 400] serverStart) = 0"
proof -
  have h: "clock (serverRun [Connect, FileChanged, Elapse 300, FileChanged, Elapse 400] serverStart) < 1000"
    by (simp add: server_defs)
  have c: "clients (serverRun [Connect, FileChanged, Elapse 300, FileChanged, Elapse 400] serverStart) = [True]"
    by (simp add: server_defs)
  show ?thesis
    using h c startup_grace_suppresses_reloads[OF h] by simp
qed

text \<open>What is suppressed is a notification that fires during the first second, not every
  change that arrives in it: a change at 800 ms is notified at 1100 ms.\<close>

lemma reload_after_grace:
  "reloadsSent (serverRun [Connect, Elapse 800, FileChanged, Elapse 300] serverStart) = 1"
  by (simp add: server_defs)

end
